theory Spec2Isabelle
  imports Main "HOL-Library.Word" "HOL-Library.Code_Target_Numeral"
begin

unbundle bit_operations_syntax

section \<open>Python values\<close>

text \<open>
  A Python \<^verbatim>\<open>str\<close> is a sequence of Unicode code points, and \<^verbatim>\<open>len\<close> counts code
  points; it is modelled as a list of code-point numbers. \<open>py\<close> turns an Isabelle
  string literal (ASCII) into such a list. Python's \<^verbatim>\<open>int\<close> is unbounded: \<open>int\<close>.
\<close>

type_synonym pystr = "nat list"

definition py :: "string \<Rightarrow> pystr" where
  "py s = map of_char s"

text \<open>\<^verbatim>\<open>s.startswith(p)\<close> and \<^verbatim>\<open>s.endswith(p)\<close>.\<close>

definition startswith :: "pystr \<Rightarrow> pystr \<Rightarrow> bool" where
  "startswith s p = (take (length p) s = p)"

definition endswith :: "pystr \<Rightarrow> pystr \<Rightarrow> bool" where
  "endswith s p = (length p \<le> length s \<and> drop (length s - length p) s = p)"

text \<open>
  The line boundaries of \<^verbatim>\<open>str.splitlines\<close>: LF, VT, FF, CR, FS, GS, RS, NEL, LS and PS;
  CR followed by LF is one boundary.
\<close>

definition is_linebreak :: "nat \<Rightarrow> bool" where
  "is_linebreak c = (c \<in> {10, 11, 12, 13, 28, 29, 30, 133, 8232, 8233})"

text \<open>
  \<^verbatim>\<open>s.splitlines(keepends)\<close>, scanning \<open>s\<close> with the line read so far in \<open>cur\<close>. A line is
  closed at each boundary (which it keeps when \<open>keepends\<close>) and at the end of the string
  when it is not empty, so the empty string has no lines and a final boundary opens no
  further line.
\<close>

fun splitlines_from :: "bool \<Rightarrow> pystr \<Rightarrow> pystr \<Rightarrow> pystr list" where
  "splitlines_from keepends cur [] = (if cur = [] then [] else [cur])"
| "splitlines_from keepends cur (c # d # s) =
     (if c = 13 \<and> d = 10 then
        (cur @ (if keepends then [c, d] else [])) # splitlines_from keepends [] s
      else if is_linebreak c then
        (cur @ (if keepends then [c] else [])) # splitlines_from keepends [] (d # s)
      else splitlines_from keepends (cur @ [c]) (d # s))"
| "splitlines_from keepends cur [c] =
     (if is_linebreak c then
        (cur @ (if keepends then [c] else [])) # splitlines_from keepends [] []
      else splitlines_from keepends (cur @ [c]) [])"

definition splitlines :: "bool \<Rightarrow> pystr \<Rightarrow> pystr list" where
  "splitlines keepends s = splitlines_from keepends [] s"

text \<open>
  The white space of \<^verbatim>\<open>str.strip()\<close> (\<^verbatim>\<open>str.isspace\<close>): U+0009 to U+000D, U+001C to
  U+001F, the space, U+0085, U+00A0, U+1680, U+2000 to U+200A, U+2028, U+2029, U+202F,
  U+205F and U+3000.
\<close>

definition is_space :: "nat \<Rightarrow> bool" where
  "is_space c =
     ((9 \<le> c \<and> c \<le> 13) \<or> (28 \<le> c \<and> c \<le> 32) \<or> c = 133 \<or> c = 160 \<or> c = 5760 \<or>
      (8192 \<le> c \<and> c \<le> 8202) \<or> c = 8232 \<or> c = 8233 \<or> c = 8239 \<or> c = 8287 \<or>
      c = 12288)"

definition strip :: "pystr \<Rightarrow> pystr" where
  "strip s = rev (dropWhile is_space (rev (dropWhile is_space s)))"

text \<open>\<^verbatim>\<open>sep.join(xs)\<close>.\<close>

fun join :: "pystr \<Rightarrow> pystr list \<Rightarrow> pystr" where
  "join sep [] = []"
| "join sep [x] = x"
| "join sep (x # y # ys) = x @ sep @ join sep (y # ys)"

text \<open>
  Python exceptions: the class and the message (\<^verbatim>\<open>str(exc)\<close>). A function that may raise
  returns a sum, \<open>Inl\<close> the exception. The messages of \<^verbatim>\<open>JSONDecodeError\<close> and
  \<^verbatim>\<open>UnicodeEncodeError\<close> are cut short (they leave out the position in the text).
\<close>

datatype exc_class =
  ValueError | TypeError | OverflowError | JSONDecodeError | IntegrityError
  | APIError | DiscordError | UnicodeEncodeError

datatype pyexc = PyExc exc_class pystr

definition exc_class_of :: "pyexc \<Rightarrow> exc_class" where
  "exc_class_of e = (case e of PyExc c m \<Rightarrow> c)"

definition exc_message :: "pyexc \<Rightarrow> pystr" where
  "exc_message e = (case e of PyExc c m \<Rightarrow> m)"

text \<open>
  The classes an \<^verbatim>\<open>except\<close> clause catches: \<^verbatim>\<open>JSONDecodeError\<close> and \<^verbatim>\<open>UnicodeEncodeError\<close>
  are subclasses of \<^verbatim>\<open>ValueError\<close>.
\<close>

definition caught_by :: "exc_class \<Rightarrow> pyexc \<Rightarrow> bool" where
  "caught_by cls e =
     (exc_class_of e = cls \<or>
      (cls = ValueError \<and> (exc_class_of e = JSONDecodeError \<or> exc_class_of e = UnicodeEncodeError)))"

section \<open>The Python library: values, \<^verbatim>\<open>str\<close>, \<^verbatim>\<open>int\<close>, \<^verbatim>\<open>json.loads\<close>\<close>

text \<open>
  What the repository's code uses of the standard library is modelled after CPython.
  The Unicode tables and the shortest-digits printing of a float are not written out:
  they are the fields of \<open>pylib\<close>, a parameter of every function that may consult them.
  \<open>uni_isalnum\<close> is \<^verbatim>\<open>str.isalnum\<close> and \<open>uni_isprintable\<close> is \<^verbatim>\<open>str.isprintable\<close> on the
  code points above 127, \<open>uni_todecimal\<close> is the value of a decimal digit above 127, and
  \<open>float_repr\<close> is \<^verbatim>\<open>repr\<close> of a float.
\<close>

text \<open>
  A Python float: a finite binary64 number with its sign, \<open>Finite neg m e\<close> for
  \<open>\<plusminus> m * 2 ^ e\<close>, an infinity, or NaN.
\<close>

datatype pyfloat = Finite bool nat int | PosInf | NegInf | NaN

text \<open>
  The values \<^verbatim>\<open>json.loads\<close> returns: \<^verbatim>\<open>None\<close>, a bool, an int, a float, a str, a list
  and a dict (its items in insertion order, every key once).
\<close>

datatype json =
  JNone | JBool bool | JInt int | JFloat pyfloat | JStr pystr
  | JList "json list" | JDict "(pystr \<times> json) list"

record pylib =
  uni_isalnum :: "nat \<Rightarrow> bool"
  uni_todecimal :: "nat \<Rightarrow> nat option"
  uni_isprintable :: "nat \<Rightarrow> bool"
  float_repr :: "pyfloat \<Rightarrow> pystr"

text \<open>The ASCII digits, and the decimal numeral of a natural number and of an int.\<close>

definition is_digit :: "nat \<Rightarrow> bool" where
  "is_digit c = (48 \<le> c \<and> c \<le> 57)"

fun digits_of :: "nat \<Rightarrow> pystr" where
  "digits_of n = (if n < 10 then [48 + n] else digits_of (n div 10) @ [48 + n mod 10])"

definition str_int :: "int \<Rightarrow> pystr" where
  "str_int i = (if i < 0 then 45 # digits_of (nat (- i)) else digits_of (nat i))"

definition digits_value :: "pystr \<Rightarrow> nat" where
  "digits_value ds = foldl (\<lambda>a d. 10 * a + (d - 48)) 0 ds"

text \<open>
  CPython refuses to convert a decimal numeral of more than 4300 digits to an int
  (\<^verbatim>\<open>sys.int_info.default_max_str_digits\<close>), with a \<^verbatim>\<open>ValueError\<close>.
\<close>

definition MAX_STR_DIGITS :: nat where
  "MAX_STR_DIGITS = 4300"

subsection \<open>\<^verbatim>\<open>float\<close> of a decimal numeral\<close>

fun bit_length :: "nat \<Rightarrow> nat" where
  "bit_length n = (if n = 0 then 0 else Suc (bit_length (n div 2)))"

text \<open>Is \<open>num / den\<close> at least \<open>2 ^ k\<close>?\<close>

definition scaled_ge :: "nat \<Rightarrow> nat \<Rightarrow> int \<Rightarrow> bool" where
  "scaled_ge num den k =
     (if 0 \<le> k then den * 2 ^ nat k \<le> num else den \<le> num * 2 ^ nat (- k))"

text \<open>
  The binary64 number nearest to \<open>N * 10 ^ E\<close>, ties to the even mantissa: 53 bits of
  mantissa, exponents of the unit in the last place from \<open>-1074\<close> to \<open>971\<close>, and an infinity
  beyond the largest finite number.
\<close>

definition float_of_decimal :: "bool \<Rightarrow> nat \<Rightarrow> int \<Rightarrow> pyfloat" where
  "float_of_decimal neg N E =
     (if N = 0 then Finite neg 0 0
      else
        (let num = (if 0 \<le> E then N * 10 ^ nat E else N);
             den = (if 0 \<le> E then 1 else 10 ^ nat (- E));
             k0 = int (bit_length num) - int (bit_length den);
             k = (if scaled_ge num den k0 then k0 else k0 - 1);
             q = max (k - 52) (- 1074);
             a = (if 0 \<le> q then num else num * 2 ^ nat (- q));
             b = (if 0 \<le> q then den * 2 ^ nat q else den);
             m0 = a div b;
             r = a mod b;
             m = (if b < 2 * r \<or> (2 * r = b \<and> odd m0) then m0 + 1 else m0);
             m' = (if m = 2 ^ 53 then 2 ^ 52 else m);
             q' = (if m = 2 ^ 53 then q + 1 else q)
         in if m' = 0 then Finite neg 0 0
            else if 971 < q' then (if neg then NegInf else PosInf)
            else Finite neg m' q'))"

subsection \<open>\<^verbatim>\<open>str(x)\<close> and \<^verbatim>\<open>repr(x)\<close>\<close>

text \<open>
  \<^verbatim>\<open>repr\<close> of a str: in single quotes, or in double quotes when the string has a single
  quote and no double quote; the quote and the backslash are escaped, tab, newline and
  carriage return are written as a backslash and the letter t, n or r, and every other code point that is
  not printable is written in hexadecimal. 39 and 34 are the quotes, 92 the backslash.
\<close>

definition hex_digit :: "nat \<Rightarrow> nat" where
  "hex_digit d = (if d < 10 then 48 + d else 87 + d)"

fun hex_digits :: "nat \<Rightarrow> nat \<Rightarrow> pystr" where
  "hex_digits 0 n = []"
| "hex_digits (Suc w) n = hex_digits w (n div 16) @ [hex_digit (n mod 16)]"

definition repr_char :: "pylib \<Rightarrow> nat \<Rightarrow> nat \<Rightarrow> pystr" where
  "repr_char lib quote ch =
     (if ch = quote \<or> ch = 92 then [92, ch]
      else if ch = 9 then [92, 116]
      else if ch = 10 then [92, 110]
      else if ch = 13 then [92, 114]
      else if ch < 32 \<or> ch = 127 then [92, 120] @ hex_digits 2 ch
      else if ch < 127 then [ch]
      else if uni_isprintable lib ch then [ch]
      else if ch \<le> 255 then [92, 120] @ hex_digits 2 ch
      else if ch \<le> 65535 then [92, 117] @ hex_digits 4 ch
      else [92, 85] @ hex_digits 8 ch)"

definition repr_str :: "pylib \<Rightarrow> pystr \<Rightarrow> pystr" where
  "repr_str lib s =
     (let quote = (if 39 \<in> set s \<and> 34 \<notin> set s then 34 else 39)
      in [quote] @ concat (map (repr_char lib quote) s) @ [quote])"

fun py_repr :: "pylib \<Rightarrow> json \<Rightarrow> pystr" where
  "py_repr lib JNone = py ''None''"
| "py_repr lib (JBool b) = (if b then py ''True'' else py ''False'')"
| "py_repr lib (JInt n) = str_int n"
| "py_repr lib (JFloat f) = float_repr lib f"
| "py_repr lib (JStr s) = repr_str lib s"
| "py_repr lib (JList xs) = py ''['' @ join (py '', '') (map (py_repr lib) xs) @ py '']''"
| "py_repr lib (JDict kvs) =
     py ''{'' @ join (py '', '') (map (\<lambda>kv. repr_str lib (fst kv) @ py '': '' @ py_repr lib (snd kv)) kvs)
       @ py ''}''"

definition py_str :: "pylib \<Rightarrow> json \<Rightarrow> pystr" where
  "py_str lib v = (case v of JStr s \<Rightarrow> s | _ \<Rightarrow> py_repr lib v)"

text \<open>
  \<^verbatim>\<open>dict(pairs)\<close>: a key that comes again keeps its place and takes the later value.
  \<^verbatim>\<open>d.get(key, default)\<close>.
\<close>

definition dict_set :: "(pystr \<times> json) list \<Rightarrow> pystr \<Rightarrow> json \<Rightarrow> (pystr \<times> json) list" where
  "dict_set d k v =
     (if k \<in> fst ` set d then map (\<lambda>kv. if fst kv = k then (k, v) else kv) d else d @ [(k, v)])"

definition py_dict :: "(pystr \<times> json) list \<Rightarrow> (pystr \<times> json) list" where
  "py_dict pairs = foldl (\<lambda>d kv. dict_set d (fst kv) (snd kv)) [] pairs"

definition dict_get :: "(pystr \<times> json) list \<Rightarrow> pystr \<Rightarrow> json \<Rightarrow> json" where
  "dict_get d k dflt = (case map_of d k of None \<Rightarrow> dflt | Some v \<Rightarrow> v)"

subsection \<open>\<^verbatim>\<open>int(x)\<close>\<close>

text \<open>
  \<^verbatim>\<open>int\<close> of a float truncates towards zero; an infinity raises \<^verbatim>\<open>OverflowError\<close> and NaN
  raises \<^verbatim>\<open>ValueError\<close>.
\<close>

definition too_many_digits :: "nat \<Rightarrow> pyexc" where
  "too_many_digits n =
     PyExc ValueError
       (py ''Exceeds the limit (4300 digits) for integer string conversion: value has ''
          @ str_int (int n)
          @ py '' digits; use sys.set_int_max_str_digits() to increase the limit'')"

definition invalid_literal :: "pylib \<Rightarrow> pystr \<Rightarrow> pyexc" where
  "invalid_literal lib s =
     PyExc ValueError (py ''invalid literal for int() with base 10: '' @ repr_str lib s)"

definition int_type_error :: "string \<Rightarrow> pyexc" where
  "int_type_error tp =
     PyExc TypeError
       (py ''int() argument must be a string, a bytes-like object or a real number, not ''
          @ [39] @ py tp @ [39])"

definition int_of_float :: "pyfloat \<Rightarrow> pyexc + int" where
  "int_of_float f =
     (case f of
        Finite neg m e \<Rightarrow>
          (let v = int (if 0 \<le> e then m * 2 ^ nat e else m div 2 ^ nat (- e))
           in Inr (if neg then - v else v))
      | PosInf \<Rightarrow> Inl (PyExc OverflowError (py ''cannot convert float infinity to integer''))
      | NegInf \<Rightarrow> Inl (PyExc OverflowError (py ''cannot convert float infinity to integer''))
      | NaN \<Rightarrow> Inl (PyExc ValueError (py ''cannot convert float NaN to integer'')))"

text \<open>
  \<^verbatim>\<open>int\<close> of a str, base 10. A code point above 127 is first replaced: white space by a
  space, a decimal digit by its ASCII digit; any other makes the literal invalid. Then:
  ASCII white space, an optional sign, digits with single underscores between them,
  ASCII white space, and the end. 95 is the underscore, 43 and 45 are the signs.
\<close>

definition ascii_of :: "pylib \<Rightarrow> nat \<Rightarrow> nat option" where
  "ascii_of lib ch =
     (if ch \<le> 127 then Some ch
      else if is_space ch then Some 32
      else map_option (\<lambda>d. 48 + d) (uni_todecimal lib ch))"

definition c_isspace :: "nat \<Rightarrow> bool" where
  "c_isspace c = (c = 32 \<or> (9 \<le> c \<and> c \<le> 13))"

fun scan_int_digits :: "bool \<Rightarrow> pystr \<Rightarrow> pystr \<Rightarrow> (pystr \<times> pystr) option" where
  "scan_int_digits prev_underscore acc [] = (if prev_underscore then None else Some (acc, []))"
| "scan_int_digits prev_underscore acc (c # s) =
     (if is_digit c then scan_int_digits False (acc @ [c]) s
      else if c = 95 then (if prev_underscore then None else scan_int_digits True acc s)
      else if prev_underscore then None
      else Some (acc, c # s))"



definition int_of_str :: "pylib \<Rightarrow> pystr \<Rightarrow> pyexc + int" where
  "int_of_str lib s =
     (if list_ex (\<lambda>ch. ascii_of lib ch = None) s then Inl (invalid_literal lib s)
      else
        (let t = dropWhile c_isspace (map (\<lambda>ch. the (ascii_of lib ch)) s);
             neg = (take 1 t = [45]);
             u = (if take 1 t = [43] \<or> take 1 t = [45] then drop 1 t else t)
         in if take 1 u = [95] then Inl (invalid_literal lib s)
            else
              (case scan_int_digits False [] u of
                 None \<Rightarrow> Inl (invalid_literal lib s)
               | Some (ds, rest) \<Rightarrow>
                   if ds = [] then Inl (invalid_literal lib s)
                   else if MAX_STR_DIGITS < length ds then Inl (too_many_digits (length ds))
                   else if dropWhile c_isspace rest \<noteq> [] then Inl (invalid_literal lib s)
                   else Inr (if neg then - int (digits_value ds) else int (digits_value ds)))))"

text \<open>\<^verbatim>\<open>int(x)\<close> for a value decoded from JSON.\<close>

definition py_int :: "pylib \<Rightarrow> json \<Rightarrow> pyexc + int" where
  "py_int lib v =
     (case v of
        JInt n \<Rightarrow> Inr n
      | JBool b \<Rightarrow> Inr (if b then 1 else 0)
      | JFloat f \<Rightarrow> int_of_float f
      | JStr s \<Rightarrow> int_of_str lib s
      | JNone \<Rightarrow> Inl (int_type_error ''NoneType'')
      | JList xs \<Rightarrow> Inl (int_type_error ''list'')
      | JDict kvs \<Rightarrow> Inl (int_type_error ''dict''))"

subsection \<open>\<^verbatim>\<open>json.loads\<close>\<close>

text \<open>
  The decoder of the \<^verbatim>\<open>json\<close> module with its defaults (strict strings; \<^verbatim>\<open>NaN\<close>,
  \<^verbatim>\<open>Infinity\<close> and \<^verbatim>\<open>-Infinity\<close> accepted), reading the text from the left and returning
  the value with the rest of the text. Every syntax error is a \<^verbatim>\<open>JSONDecodeError\<close>; the
  interpreter's recursion limit, which very deep nesting would hit, is not modelled.
\<close>

definition decode_error :: "string \<Rightarrow> pyexc" where
  "decode_error msg = PyExc JSONDecodeError (py msg)"

text \<open>JSON white space: space, tab, newline, carriage return.\<close>

definition json_ws :: "nat \<Rightarrow> bool" where
  "json_ws c = (c = 32 \<or> c = 9 \<or> c = 10 \<or> c = 13)"

definition skip_ws :: "pystr \<Rightarrow> pystr" where
  "skip_ws s = dropWhile json_ws s"

definition hex_value :: "nat \<Rightarrow> nat option" where
  "hex_value c =
     (if 48 \<le> c \<and> c \<le> 57 then Some (c - 48)
      else if 97 \<le> c \<and> c \<le> 102 then Some (c - 87)
      else if 65 \<le> c \<and> c \<le> 70 then Some (c - 55)
      else None)"

text \<open>The value of the four hexadecimal digits a string starts with.\<close>

definition hex4 :: "pystr \<Rightarrow> nat option" where
  "hex4 s =
     (case map hex_value (take 4 s) of
        [Some a, Some b, Some c, Some d] \<Rightarrow> Some (((a * 16 + b) * 16 + c) * 16 + d)
      | _ \<Rightarrow> None)"

text \<open>
  The one-letter escapes: the quote (34), the backslash (92) and the slash (47) stand
  for themselves, the letters \<^verbatim>\<open>b f n r t\<close> for the control characters.
\<close>

definition backslash :: "nat \<Rightarrow> nat option" where
  "backslash e =
     (if e = 34 \<or> e = 92 \<or> e = 47 then Some e
      else if e = 98 then Some 8
      else if e = 102 then Some 12
      else if e = 110 then Some 10
      else if e = 114 then Some 13
      else if e = 116 then Some 9
      else None)"

definition is_high_surrogate :: "nat \<Rightarrow> bool" where
  "is_high_surrogate u = (55296 \<le> u \<and> u \<le> 56319)"

definition is_low_surrogate :: "nat \<Rightarrow> bool" where
  "is_low_surrogate u = (56320 \<le> u \<and> u \<le> 57343)"

definition join_surrogates :: "nat \<Rightarrow> nat \<Rightarrow> nat" where
  "join_surrogates u u2 = 65536 + ((u - 55296) * 1024 + (u2 - 56320))"

text \<open>
  \<^verbatim>\<open>scanstring\<close>, from behind the opening quote, with the characters read so far. 34 is
  the quote, 92 the backslash, 117 the letter u. An escape of a code unit (backslash, u)
  needs its four digits and one more character behind them; a high surrogate followed by the escape of a low
  surrogate is joined with it.
\<close>

fun scanstring :: "pystr \<Rightarrow> pystr \<Rightarrow> pyexc + (pystr \<times> pystr)" where
  "scanstring acc [] = Inl (decode_error ''Unterminated string starting at'')"
| "scanstring acc (c # s) =
     (if c = 34 then Inr (acc, s)
      else if c = 92 then
        (case s of
           [] \<Rightarrow> Inl (decode_error ''Unterminated string starting at'')
         | e # r \<Rightarrow>
             if e \<noteq> 117 then
               (case backslash e of
                  None \<Rightarrow> Inl (decode_error ''Invalid escape'')
                | Some ch \<Rightarrow> scanstring (acc @ [ch]) r)
             else if length r < 5 then Inl (decode_error ''Invalid uXXXX escape'')
             else
               (case hex4 r of
                  None \<Rightarrow> Inl (decode_error ''Invalid uXXXX escape'')
                | Some uni \<Rightarrow>
                    if is_high_surrogate uni \<and> 7 \<le> length (drop 4 r)
                       \<and> take 2 (drop 4 r) = [92, 117] then
                      (case hex4 (drop 6 r) of
                         None \<Rightarrow> Inl (decode_error ''Invalid uXXXX escape'')
                       | Some uni2 \<Rightarrow>
                           if is_low_surrogate uni2
                           then scanstring (acc @ [join_surrogates uni uni2]) (drop 10 r)
                           else scanstring (acc @ [uni]) (drop 4 r))
                    else scanstring (acc @ [uni]) (drop 4 r)))
      else if c \<le> 31 then Inl (decode_error ''Invalid control character at'')
      else scanstring (acc @ [c]) s)"

text \<open>
  A number: an optional minus, \<^verbatim>\<open>0\<close> or a digit from 1 to 9 with further digits, an
  optional fraction (a point and digits) and an optional exponent. 45 is the minus, 43
  the plus, 46 the point, 101 and 69 are the letters e and E.
\<close>

definition match_integer :: "pystr \<Rightarrow> (bool \<times> pystr \<times> pystr) option" where
  "match_integer s =
     (let neg = (take 1 s = [45]);
          t = (if neg then drop 1 s else s)
      in case t of
           [] \<Rightarrow> None
         | c # r \<Rightarrow>
             if c = 48 then Some (neg, [48], r)
             else if 49 \<le> c \<and> c \<le> 57 then Some (neg, takeWhile is_digit t, dropWhile is_digit t)
             else None)"

definition match_frac :: "pystr \<Rightarrow> pystr option \<times> pystr" where
  "match_frac s =
     (case s of
        [] \<Rightarrow> (None, s)
      | c # r \<Rightarrow>
          if c = 46 \<and> takeWhile is_digit r \<noteq> []
          then (Some (takeWhile is_digit r), dropWhile is_digit r)
          else (None, s))"

definition match_exp :: "pystr \<Rightarrow> int option \<times> pystr" where
  "match_exp s =
     (case s of
        [] \<Rightarrow> (None, s)
      | c # r \<Rightarrow>
          if c = 101 \<or> c = 69 then
            (let neg = (take 1 r = [45]);
                 t = (if take 1 r = [45] \<or> take 1 r = [43] then drop 1 r else r);
                 ds = takeWhile is_digit t
             in if ds = [] then (None, s)
                else (Some (if neg then - int (digits_value ds) else int (digits_value ds)),
                      dropWhile is_digit t))
          else (None, s))"

text \<open>
  The number a text starts with, if any: a \<^verbatim>\<open>float\<close> when it has a fraction or an
  exponent, else an \<^verbatim>\<open>int\<close>, which raises when its digits are too many.
\<close>

definition match_number :: "pystr \<Rightarrow> ((pyexc + json) \<times> pystr) option" where
  "match_number s =
     (case match_integer s of
        None \<Rightarrow> None
      | Some (neg, ds, r1) \<Rightarrow>
          (case match_frac r1 of
             (frac, r2) \<Rightarrow>
               (case match_exp r2 of
                  (ex, r3) \<Rightarrow>
                    if frac = None \<and> ex = None then
                      Some (if MAX_STR_DIGITS < length ds then Inl (too_many_digits (length ds))
                            else Inr (JInt (if neg then - int (digits_value ds)
                                            else int (digits_value ds))),
                            r3)
                    else
                      (let fs = (case frac of None \<Rightarrow> [] | Some f \<Rightarrow> f);
                           e = (case ex of None \<Rightarrow> 0 | Some x \<Rightarrow> x)
                       in Some (Inr (JFloat (float_of_decimal neg (digits_value (ds @ fs))
                                               (e - int (length fs)))),
                                r3)))))"

text \<open>
  \<^verbatim>\<open>scan_once\<close> with \<^verbatim>\<open>JSONArray\<close> and \<^verbatim>\<open>JSONObject\<close>. The first argument bounds the number
  of nested calls; \<open>json_loads\<close> gives more than the length of the text, which no text
  uses up. \<open>array_items\<close> stands where a value of an array is expected, \<open>object_items\<close>
  behind the opening quote of a key. 91 and 93 are the brackets, 123 and 125 the braces,
  44 the comma, 58 the colon.
\<close>

fun scan_once :: "nat \<Rightarrow> pystr \<Rightarrow> pyexc + (json \<times> pystr)"
  and array_items :: "nat \<Rightarrow> json list \<Rightarrow> pystr \<Rightarrow> pyexc + (json \<times> pystr)"
  and object_items :: "nat \<Rightarrow> (pystr \<times> json) list \<Rightarrow> pystr \<Rightarrow> pyexc + (json \<times> pystr)" where
  "scan_once 0 s = Inl (decode_error ''Expecting value'')"
| "scan_once (Suc n) s =
     (case s of
        [] \<Rightarrow> Inl (decode_error ''Expecting value'')
      | c # r \<Rightarrow>
          if c = 34 then
            (case scanstring [] r of
               Inl e \<Rightarrow> Inl e
             | Inr (str, rest) \<Rightarrow> Inr (JStr str, rest))
          else if c = 123 then
            (case skip_ws r of
               [] \<Rightarrow> Inl (decode_error ''Expecting property name enclosed in double quotes'')
             | d # r' \<Rightarrow>
                 if d = 125 then Inr (JDict [], r')
                 else if d = 34 then object_items n [] r'
                 else Inl (decode_error ''Expecting property name enclosed in double quotes''))
          else if c = 91 then
            (case skip_ws r of
               [] \<Rightarrow> Inl (decode_error ''Expecting value'')
             | d # r' \<Rightarrow> if d = 93 then Inr (JList [], r') else array_items n [] (d # r'))
          else if startswith s (py ''null'') then Inr (JNone, drop 4 s)
          else if startswith s (py ''true'') then Inr (JBool True, drop 4 s)
          else if startswith s (py ''false'') then Inr (JBool False, drop 5 s)
          else
            (case match_number s of
               Some (res, rest) \<Rightarrow>
                 (case res of Inl e \<Rightarrow> Inl e | Inr v \<Rightarrow> Inr (v, rest))
             | None \<Rightarrow>
                 if startswith s (py ''NaN'') then Inr (JFloat NaN, drop 3 s)
                 else if startswith s (py ''Infinity'') then Inr (JFloat PosInf, drop 8 s)
                 else if startswith s (py ''-Infinity'') then Inr (JFloat NegInf, drop 9 s)
                 else Inl (decode_error ''Expecting value'')))"
| "array_items 0 values s = Inl (decode_error ''Expecting value'')"
| "array_items (Suc n) values s =
     (case scan_once n s of
        Inl e \<Rightarrow> Inl e
      | Inr (v, rest) \<Rightarrow>
          (case skip_ws rest of
             [] \<Rightarrow> Inl (decode_error ''Expecting , delimiter'')
           | d # r \<Rightarrow>
               if d = 93 then Inr (JList (values @ [v]), r)
               else if d = 44 then array_items n (values @ [v]) (skip_ws r)
               else Inl (decode_error ''Expecting , delimiter'')))"
| "object_items 0 pairs s = Inl (decode_error ''Expecting value'')"
| "object_items (Suc n) pairs s =
     (case scanstring [] s of
        Inl e \<Rightarrow> Inl e
      | Inr (key, r1) \<Rightarrow>
          (case skip_ws r1 of
             [] \<Rightarrow> Inl (decode_error ''Expecting : delimiter'')
           | c # r2 \<Rightarrow>
               if c \<noteq> 58 then Inl (decode_error ''Expecting : delimiter'')
               else
                 (case scan_once n (skip_ws r2) of
                    Inl e \<Rightarrow> Inl e
                  | Inr (v, r3) \<Rightarrow>
                      (case skip_ws r3 of
                         [] \<Rightarrow> Inl (decode_error ''Expecting , delimiter'')
                       | d # r4 \<Rightarrow>
                           if d = 125 then Inr (JDict (py_dict (pairs @ [(key, v)])), r4)
                           else if d \<noteq> 44 then Inl (decode_error ''Expecting , delimiter'')
                           else
                             (case skip_ws r4 of
                                [] \<Rightarrow> Inl (decode_error ''Expecting property name enclosed in double quotes'')
                              | q # r5 \<Rightarrow>
                                  if q = 34 then object_items n (pairs @ [(key, v)]) r5
                                  else Inl (decode_error ''Expecting property name enclosed in double quotes''))))))"

text \<open>
  \<^verbatim>\<open>json.loads\<close> of a str: no byte order mark (65279) at the start, white space, one
  value, white space, the end of the text.
\<close>

definition json_loads :: "pystr \<Rightarrow> pyexc + json" where
  "json_loads s =
     (if take 1 s = [65279] then Inl (decode_error ''Unexpected UTF-8 BOM (decode using utf-8-sig)'')
      else
        (case scan_once (Suc (length s)) (skip_ws s) of
           Inl e \<Rightarrow> Inl e
         | Inr (v, rest) \<Rightarrow>
             if skip_ws rest = [] then Inr v else Inl (decode_error ''Extra data'')))"

section \<open>db.py: the state store\<close>

text \<open>
  The row of table \<^verbatim>\<open>games\<close> (dataclass \<^verbatim>\<open>Game\<close>). Nullable columns are options.
  The table has \<^verbatim>\<open>id INTEGER PRIMARY KEY\<close>, so it is a map from the id to the row.
\<close>

record Game =
  g_id :: int
  discord_server_id :: pystr
  place_id :: int
  channel_id :: pystr
  api_key_encrypted :: "nat list"
  added_by :: pystr
  working_dir :: pystr
  last_sync_at :: "pystr option"
  last_error :: "pystr option"
  last_error_at :: "pystr option"
  error_count :: "int option"
  g_created_at :: pystr

text \<open>
  The row of table \<^verbatim>\<open>issues\<close> (dataclass \<^verbatim>\<open>DBIssue\<close>). The columns that share a name
  with a field of \<^verbatim>\<open>review.Issue\<close> carry the prefix \<open>db_\<close>.
\<close>

record DBIssue =
  issue_id :: int
  game_id :: int
  discord_message_id :: "pystr option"
  file_path :: pystr
  db_line_start :: "int option"
  db_line_end :: "int option"
  db_severity :: pystr
  db_title :: pystr
  db_explanation :: "pystr option"
  db_suggestion :: "pystr option"
  resolved :: bool
  resolved_by :: "pystr option"
  resolved_reason :: "pystr option"
  resolved_at :: "pystr option"
  created_at :: pystr

text \<open>
  The database: the two tables the orchestrator works on. \<open>issues\<close> lists the rows in
  insertion order (the order of their ids); \<open>issue_seq\<close> is the largest id handed out so
  far (\<^verbatim>\<open>AUTOINCREMENT\<close>).
\<close>

record Database =
  games :: "int \<rightharpoonup> Game"
  issues :: "DBIssue list"
  issue_seq :: int

text \<open>
  \<^verbatim>\<open>Database.update_last_sync\<close>: \<^verbatim>\<open>UPDATE games SET last_sync_at = ?, last_error = NULL,
  last_error_at = NULL, error_count = 0 WHERE id = ?\<close>. \<open>now\<close> is the timestamp
  \<^verbatim>\<open>datetime.now(timezone.utc).isoformat()\<close>.
\<close>

definition update_last_sync :: "pystr \<Rightarrow> Database \<Rightarrow> int \<Rightarrow> Database" where
  "update_last_sync now db gid =
     (case games db gid of
        None \<Rightarrow> db
      | Some row \<Rightarrow>
          db\<lparr>games := (games db)(gid \<mapsto>
            row\<lparr>last_sync_at := Some now, last_error := None,
                last_error_at := None, error_count := Some 0\<rparr>)\<rparr>)"

text \<open>
  \<^verbatim>\<open>Database.update_last_error\<close>. The row is read first; \<^verbatim>\<open>row and row[0] == error\<close>
  holds when the row exists and its \<^verbatim>\<open>last_error\<close> is the same string. \<^verbatim>\<open>row[1] or 0\<close>
  reads a NULL count as 0. With no row of that id both UPDATEs change nothing and the
  result is \<^verbatim>\<open>True\<close>.
\<close>

definition update_last_error :: "pystr \<Rightarrow> Database \<Rightarrow> int \<Rightarrow> pystr \<Rightarrow> bool \<times> Database" where
  "update_last_error now db gid error =
     (case games db gid of
        None \<Rightarrow> (True, db)
      | Some row \<Rightarrow>
          if last_error row = Some error then
            (let new_count = (case error_count row of None \<Rightarrow> 0 | Some c \<Rightarrow> c) + 1
             in (new_count = 1 \<or> new_count mod 12 = 0,
                 db\<lparr>games := (games db)(gid \<mapsto> row\<lparr>error_count := Some new_count\<rparr>)\<rparr>))
          else
            (True,
             db\<lparr>games := (games db)(gid \<mapsto>
               row\<lparr>last_error := Some error, last_error_at := Some now,
                   error_count := Some 1\<rparr>)\<rparr>))"

text \<open>
  A run of calls of \<open>update_last_error\<close> on one workspace, one call per
  (timestamp, message) pair, the database threaded through; the result holds the
  \<^verbatim>\<open>should_report\<close> flag of each call in order.
\<close>

fun record_errors :: "Database \<Rightarrow> int \<Rightarrow> (pystr \<times> pystr) list \<Rightarrow> bool list \<times> Database" where
  "record_errors db gid [] = ([], db)"
| "record_errors db gid ((now, error) # rest) =
     (case update_last_error now db gid error of
        (flag, db') \<Rightarrow>
          (case record_errors db' gid rest of
             (flags, db'') \<Rightarrow> (flag # flags, db'')))"

text \<open>The row of a workspace, when it has one; the fields of it the throttle works on.\<close>

definition stored_error :: "Database \<Rightarrow> int \<Rightarrow> pystr option" where
  "stored_error db gid = (case games db gid of None \<Rightarrow> None | Some row \<Rightarrow> last_error row)"

definition stored_error_at :: "Database \<Rightarrow> int \<Rightarrow> pystr option" where
  "stored_error_at db gid = (case games db gid of None \<Rightarrow> None | Some row \<Rightarrow> last_error_at row)"

definition stored_count :: "Database \<Rightarrow> int \<Rightarrow> int" where
  "stored_count db gid =
     (case games db gid of
        None \<Rightarrow> 0
      | Some row \<Rightarrow> (case error_count row of None \<Rightarrow> 0 | Some c \<Rightarrow> c))"

text \<open>\<^verbatim>\<open>Database.get_unresolved_issues\<close>.\<close>

definition get_unresolved_issues :: "Database \<Rightarrow> int \<Rightarrow> DBIssue list" where
  "get_unresolved_issues db gid = filter (\<lambda>r. game_id r = gid \<and> \<not> resolved r) (issues db)"

text \<open>
  An integer that SQLite can store: sqlite3 raises \<^verbatim>\<open>OverflowError\<close> when it binds a
  Python int outside 64 bits.
\<close>

definition sqlite_int_ok :: "int option \<Rightarrow> bool" where
  "sqlite_int_ok v = (case v of None \<Rightarrow> True | Some n \<Rightarrow> - (2 ^ 63) \<le> n \<and> n < 2 ^ 63)"

text \<open>
  \<^verbatim>\<open>Database.add_issue\<close>: one INSERT. The new row is unresolved (\<^verbatim>\<open>resolved\<close> defaults
  to 0) and gets the next id. The INSERT fails when a line number does not fit SQLite's
  integers, and (foreign keys are on) when the workspace has no row.
\<close>

definition add_issue ::
  "pystr \<Rightarrow> Database \<Rightarrow> int \<Rightarrow> pystr option \<Rightarrow> pystr \<Rightarrow> int option \<Rightarrow> int option \<Rightarrow>
   pystr \<Rightarrow> pystr \<Rightarrow> pystr option \<Rightarrow> pystr option \<Rightarrow> pyexc + (int \<times> Database)" where
  "add_issue now db gid message_id path lstart lend sev ttl expl sugg =
     (if \<not> (sqlite_int_ok lstart \<and> sqlite_int_ok lend) then
        Inl (PyExc OverflowError (py ''Python int too large to convert to SQLite INTEGER''))
      else if games db gid = None then
        Inl (PyExc IntegrityError (py ''FOREIGN KEY constraint failed''))
      else
        (let new_id = issue_seq db + 1;
             row = \<lparr>issue_id = new_id, game_id = gid, discord_message_id = message_id,
                    file_path = path, db_line_start = lstart, db_line_end = lend,
                    db_severity = sev, db_title = ttl, db_explanation = expl,
                    db_suggestion = sugg, resolved = False, resolved_by = None,
                    resolved_reason = None, resolved_at = None, created_at = now\<rparr>
         in Inr (new_id, db\<lparr>issues := issues db @ [row], issue_seq := new_id\<rparr>)))"

text \<open>\<^verbatim>\<open>Database.resolve_issue\<close>: the UPDATE of the rows with that id.\<close>

definition resolve_issue :: "pystr \<Rightarrow> Database \<Rightarrow> int \<Rightarrow> pystr \<Rightarrow> pystr \<Rightarrow> Database" where
  "resolve_issue now db iid resolver reason =
     db\<lparr>issues := map (\<lambda>r. if issue_id r = iid
                             then r\<lparr>resolved := True, resolved_by := Some resolver,
                                    resolved_reason := Some reason, resolved_at := Some now\<rparr>
                             else r) (issues db)\<rparr>"

text \<open>\<^verbatim>\<open>Database.update_issue_message_id\<close>.\<close>

definition update_issue_message_id :: "Database \<Rightarrow> int \<Rightarrow> pystr \<Rightarrow> Database" where
  "update_issue_message_id db iid message_id =
     db\<lparr>issues := map (\<lambda>r. if issue_id r = iid then r\<lparr>discord_message_id := Some message_id\<rparr>
                             else r) (issues db)\<rparr>"

text \<open>
  \<^verbatim>\<open>Database.final_dedup\<close>: is there an unresolved row of this workspace with this file
  and this title?
\<close>

definition final_dedup :: "Database \<Rightarrow> int \<Rightarrow> pystr \<Rightarrow> pystr \<Rightarrow> bool" where
  "final_dedup db gid path ttl =
     list_ex (\<lambda>r. game_id r = gid \<and> file_path r = path \<and> db_title r = ttl \<and> \<not> resolved r)
       (issues db)"

section \<open>review.py: the diff-to-review pipeline\<close>

definition REVIEWABLE_EXTENSIONS :: "pystr list" where
  "REVIEWABLE_EXTENSIONS = [py ''.luau'', py ''.lua'']"

definition TOKEN_ESTIMATE_DIVISOR :: nat where
  "TOKEN_ESTIMATE_DIVISOR = 4"

definition MAX_SINGLE_PASS_TOKENS :: nat where
  "MAX_SINGLE_PASS_TOKENS = 150000"

text \<open>
  \<^verbatim>\<open>split_diff_by_file\<close>: the loop over the lines (kept with their ends), with the chunks
  closed so far and the lines of the open chunk. A line that starts with
  \<^verbatim>\<open>diff --git \<close> closes the open chunk, when it has lines, and opens the next.
\<close>

fun split_loop :: "pystr list \<Rightarrow> pystr list \<Rightarrow> pystr list \<Rightarrow> pystr list" where
  "split_loop chunks current [] =
     (if current \<noteq> [] then chunks @ [concat current] else chunks)"
| "split_loop chunks current (line # rest) =
     (if startswith line (py ''diff --git '') then
        split_loop (if current \<noteq> [] then chunks @ [concat current] else chunks) [line] rest
      else split_loop chunks (current @ [line]) rest)"

definition split_diff_by_file :: "pystr \<Rightarrow> pystr list" where
  "split_diff_by_file raw_diff = split_loop [] [] (splitlines True raw_diff)"

text \<open>
  \<^verbatim>\<open>extract_file_path\<close>: the first line (without its end) that starts with \<^verbatim>\<open>+++ b/\<close> or
  with \<^verbatim>\<open>+++ \<close> gives the path, stripped; with no such line the path is empty.
\<close>

fun extract_loop :: "pystr list \<Rightarrow> pystr" where
  "extract_loop [] = []"
| "extract_loop (line # rest) =
     (if startswith line (py ''+++ b/'') then strip (drop 6 line)
      else if startswith line (py ''+++ '') then strip (drop 4 line)
      else extract_loop rest)"

definition extract_file_path :: "pystr \<Rightarrow> pystr" where
  "extract_file_path file_diff = extract_loop (splitlines False file_diff)"

text \<open>\<^verbatim>\<open>any(path.endswith(ext) for ext in REVIEWABLE_EXTENSIONS)\<close>.\<close>

definition reviewable_path :: "pystr \<Rightarrow> bool" where
  "reviewable_path path = list_ex (endswith path) REVIEWABLE_EXTENSIONS"

text \<open>\<^verbatim>\<open>filter_script_changes\<close>: the chunks with a reviewable path, joined by a newline.\<close>

definition filter_script_changes :: "pystr \<Rightarrow> pystr" where
  "filter_script_changes raw_diff =
     join [10] (filter (\<lambda>chunk. reviewable_path (extract_file_path chunk))
       (split_diff_by_file raw_diff))"

text \<open>The dataclass \<^verbatim>\<open>Issue\<close>.\<close>

record Issue =
  "file" :: pystr
  line_start :: int
  line_end :: int
  severity :: pystr
  title :: pystr
  explanation :: pystr
  suggestion :: pystr

text \<open>
  \<^verbatim>\<open>format_existing_issues\<close>: nothing for no findings, else a header line and one line
  \<^verbatim>\<open>- [severity] file:line -- title\<close> per finding. A NULL line prints as \<^verbatim>\<open>None\<close>.
\<close>

definition format_existing_line :: "DBIssue \<Rightarrow> pystr" where
  "format_existing_line e =
     py ''- ['' @ db_severity e @ py ''] '' @ file_path e @ py '':''
       @ (case db_line_start e of None \<Rightarrow> py ''None'' | Some n \<Rightarrow> str_int n)
       @ py '' -- '' @ db_title e"

definition format_existing_issues :: "DBIssue list \<Rightarrow> pystr" where
  "format_existing_issues existing =
     (if existing = [] then []
      else join [10]
        (py ''Already-reported unresolved issues (do NOT re-report these):''
           # map format_existing_line existing))"

text \<open>
  The regular expressions of \<^verbatim>\<open>parse_issues\<close>. A word character is the underscore (95),
  an ASCII letter or digit, or an alphanumeric code point above 127.
\<close>

definition is_word :: "pylib \<Rightarrow> nat \<Rightarrow> bool" where
  "is_word lib c =
     (c = 95 \<or> is_digit c \<or> (65 \<le> c \<and> c \<le> 90) \<or> (97 \<le> c \<and> c \<le> 122)
      \<or> (127 < c \<and> uni_isalnum lib c))"

text \<open>
  The first substitution, on a text that starts with three backquotes: the backquotes,
  the word characters behind them and one newline, if there is one, are removed. The
  pattern is anchored at the start, so nothing else matches.
\<close>

definition sub_open_fence :: "pylib \<Rightarrow> pystr \<Rightarrow> pystr" where
  "sub_open_fence lib text =
     (let r = dropWhile (is_word lib) (drop 3 text)
      in if take 1 r = [10] then drop 1 r else r)"

text \<open>
  The second substitution: three backquotes at the end of the text, or before a newline
  that ends the text, are removed together with a newline in front of them.
\<close>

definition sub_close_fence :: "pystr \<Rightarrow> pystr" where
  "sub_close_fence text =
     (if endswith text (py ''```'') then
        (let t = take (length text - 3) text in if endswith t [10] then butlast t else t)
      else if endswith text (py ''```'' @ [10]) then
        (let t = take (length text - 4) text
         in (if endswith t [10] then butlast t else t) @ [10])
      else text)"

text \<open>
  The search for an opening bracket (91), anything, and a closing bracket (93), where a
  dot matches every character: the match runs from the first opening bracket to the last
  closing bracket behind it.
\<close>

definition search_brackets :: "pystr \<Rightarrow> pystr option" where
  "search_brackets text =
     (let s = dropWhile (\<lambda>c. c \<noteq> 91) text
      in if s = [] then None
         else if 93 \<in> set (tl s) then
           Some (91 # take (length (tl s) - length (takeWhile (\<lambda>c. c \<noteq> 93) (rev (tl s)))) (tl s))
         else None)"

text \<open>
  The \<^verbatim>\<open>Issue\<close> of one mapping of the array. The arguments are evaluated in order, so
  the first \<^verbatim>\<open>int\<close> that raises decides the exception.
\<close>

definition make_issue :: "pylib \<Rightarrow> (pystr \<times> json) list \<Rightarrow> pyexc + Issue" where
  "make_issue lib item =
     (case py_int lib (dict_get item (py ''line_start'') (JInt 0)) of
        Inl e \<Rightarrow> Inl e
      | Inr ls \<Rightarrow>
          (case py_int lib (dict_get item (py ''line_end'') (JInt 0)) of
             Inl e \<Rightarrow> Inl e
           | Inr le \<Rightarrow>
               Inr \<lparr>file = py_str lib (dict_get item (py ''file'') (JStr [])),
                    line_start = ls,
                    line_end = le,
                    severity = py_str lib (dict_get item (py ''severity'') (JStr (py ''Medium''))),
                    title = py_str lib (dict_get item (py ''title'') (JStr [])),
                    explanation = py_str lib (dict_get item (py ''explanation'') (JStr [])),
                    suggestion = py_str lib (dict_get item (py ''suggestion'') (JStr []))\<rparr>))"

text \<open>
  The loop over the array: an element that is no mapping is passed over, and so is one
  whose \<^verbatim>\<open>Issue\<close> raises \<^verbatim>\<open>ValueError\<close> or \<^verbatim>\<open>TypeError\<close>; any other exception leaves the
  loop and the function.
\<close>

fun issues_loop :: "pylib \<Rightarrow> Issue list \<Rightarrow> json list \<Rightarrow> pyexc + Issue list" where
  "issues_loop lib found [] = Inr found"
| "issues_loop lib found (item # rest) =
     (case item of
        JDict d \<Rightarrow>
          (case make_issue lib d of
             Inr i \<Rightarrow> issues_loop lib (found @ [i]) rest
           | Inl e \<Rightarrow>
               if caught_by ValueError e \<or> caught_by TypeError e
               then issues_loop lib found rest
               else Inl e)
      | _ \<Rightarrow> issues_loop lib found rest)"

text \<open>
  The text \<^verbatim>\<open>parse_issues\<close> decodes: stripped, and without its code fence when it starts
  with three backquotes.
\<close>

definition unfenced :: "pylib \<Rightarrow> pystr \<Rightarrow> pystr" where
  "unfenced lib text =
     (if startswith (strip text) (py ''```'')
      then strip (sub_close_fence (sub_open_fence lib (strip text)))
      else strip text)"

text \<open>
  The two attempts to decode: the whole text, and after a \<^verbatim>\<open>JSONDecodeError\<close> the
  bracketed span. \<open>Inr None\<close> is the early \<^verbatim>\<open>return []\<close>; an exception of \<^verbatim>\<open>json.loads\<close>
  that is no \<^verbatim>\<open>JSONDecodeError\<close> is not caught.
\<close>

definition load_findings :: "pystr \<Rightarrow> pyexc + json option" where
  "load_findings text =
     (case json_loads text of
        Inr data \<Rightarrow> Inr (Some data)
      | Inl e \<Rightarrow>
          if \<not> caught_by JSONDecodeError e then Inl e
          else
            (case search_brackets text of
               None \<Rightarrow> Inr None
             | Some span \<Rightarrow>
                 (case json_loads span of
                    Inr data \<Rightarrow> Inr (Some data)
                  | Inl e' \<Rightarrow> if caught_by JSONDecodeError e' then Inr None else Inl e')))"

text \<open>\<^verbatim>\<open>parse_issues\<close>.\<close>

definition parse_issues :: "pylib \<Rightarrow> pystr \<Rightarrow> pyexc + Issue list" where
  "parse_issues lib text =
     (case load_findings (unfenced lib text) of
        Inl e \<Rightarrow> Inl e
      | Inr None \<Rightarrow> Inr []
      | Inr (Some data) \<Rightarrow>
          (case data of JList items \<Rightarrow> issues_loop lib [] items | _ \<Rightarrow> Inr []))"

text \<open>
  The review oracle: the call \<^verbatim>\<open>client.messages.create\<close> with the system prompt and the
  user content, up to the text of the first content block. \<open>oracle i content\<close> is the
  outcome of the \<open>i\<close>-th call of one review, the response text or the exception.
\<close>

type_synonym oracle_fn = "nat \<Rightarrow> pystr \<Rightarrow> pyexc + pystr"

definition user_content :: "pystr \<Rightarrow> pystr \<Rightarrow> pystr" where
  "user_content existing_context d =
     (if existing_context \<noteq> []
      then existing_context @ [10, 10] @ py ''Review this diff:'' @ [10, 10] @ d
      else py ''Review this diff:'' @ [10, 10] @ d)"

text \<open>
  \<^verbatim>\<open>review_one\<close> of \<^verbatim>\<open>_review_chunked\<close>: whatever the call or the parsing raises is
  logged and gives no findings.
\<close>

definition review_one :: "pylib \<Rightarrow> oracle_fn \<Rightarrow> pystr \<Rightarrow> nat \<Rightarrow> pystr \<Rightarrow> Issue list" where
  "review_one lib orc existing_context i file_diff =
     (case orc i (user_content existing_context file_diff) of
        Inl e \<Rightarrow> []
      | Inr text \<Rightarrow> (case parse_issues lib text of Inl e \<Rightarrow> [] | Inr found \<Rightarrow> found))"

text \<open>
  \<^verbatim>\<open>_review_chunked\<close>: the reviewable chunks of the diff, one call each, the findings
  gathered in the order of the chunks. The result comes with the list of the user
  contents the oracle was called with.
\<close>

definition review_chunked ::
  "pylib \<Rightarrow> oracle_fn \<Rightarrow> pystr \<Rightarrow> pystr \<Rightarrow> Issue list \<times> pystr list" where
  "review_chunked lib orc d existing_context =
     (let file_diffs = filter (\<lambda>fd. reviewable_path (extract_file_path fd)) (split_diff_by_file d)
      in (concat (map (\<lambda>(i, fd). review_one lib orc existing_context i fd)
                    (zip [0..<length file_diffs] file_diffs)),
          map (user_content existing_context) file_diffs))"

text \<open>
  \<^verbatim>\<open>review_diff\<close>: nothing reviewable gives no findings and no call; an estimate above
  the limit goes to \<open>review_chunked\<close>; else one call with the whole filtered diff, whose
  exception, or that of the parsing, is raised again.
\<close>

definition review_diff ::
  "pylib \<Rightarrow> oracle_fn \<Rightarrow> pystr \<Rightarrow> DBIssue list \<Rightarrow> (pyexc + Issue list) \<times> pystr list" where
  "review_diff lib orc d existing_issues =
     (let script_diff = filter_script_changes d
      in if script_diff = [] then (Inr [], [])
         else
           (let existing_context = format_existing_issues existing_issues;
                token_estimate = length script_diff div TOKEN_ESTIMATE_DIVISOR
            in if MAX_SINGLE_PASS_TOKENS < token_estimate then
                 (case review_chunked lib orc script_diff existing_context of
                    (found, calls) \<Rightarrow> (Inr found, calls))
               else
                 (case orc 0 (user_content existing_context script_diff) of
                    Inl e \<Rightarrow> (Inl e, [user_content existing_context script_diff])
                  | Inr text \<Rightarrow>
                      (parse_issues lib text, [user_content existing_context script_diff]))))"

section \<open>daemon.py: the sync orchestrator\<close>

text \<open>
  \<^verbatim>\<open>_auto_resolve\<close>: the loop over the unresolved findings of the workspace, read once
  before the loop; a finding whose file is among the changed files is resolved by
  \<^verbatim>\<open>auto\<close> with reason \<^verbatim>\<open>file modified\<close>. The result is the store and the ids resolved.
  The function talks to the store only: it takes no oracle.
\<close>

fun auto_resolve_loop ::
  "pystr \<Rightarrow> pystr list \<Rightarrow> Database \<Rightarrow> int list \<Rightarrow> DBIssue list \<Rightarrow> Database \<times> int list" where
  "auto_resolve_loop now changed_files db resolved_ids [] = (db, resolved_ids)"
| "auto_resolve_loop now changed_files db resolved_ids (issue # rest) =
     (if file_path issue \<in> set changed_files then
        auto_resolve_loop now changed_files
          (resolve_issue now db (issue_id issue) (py ''auto'') (py ''file modified''))
          (resolved_ids @ [issue_id issue]) rest
      else auto_resolve_loop now changed_files db resolved_ids rest)"

definition auto_resolve :: "pystr \<Rightarrow> Database \<Rightarrow> int \<Rightarrow> pystr list \<Rightarrow> Database \<times> int list" where
  "auto_resolve now db gid changed_files =
     auto_resolve_loop now changed_files db [] (get_unresolved_issues db gid)"

text \<open>
  The notification channel of one \<^verbatim>\<open>_post_issues\<close>: whether \<^verbatim>\<open>bot.get_channel\<close> finds a
  text channel, and the outcome of the \<open>k\<close>-th \<^verbatim>\<open>channel.send\<close>, the id of the message
  or the exception.
\<close>

record sink =
  channel_found :: bool
  send :: "nat \<Rightarrow> pyexc + pystr"

text \<open>
  The loop of \<^verbatim>\<open>_post_issues\<close> over the findings: each is stored, then sent, then given
  the id of its message. An exception of the store or of the send leaves the loop with
  the rows stored so far.
\<close>

fun post_loop ::
  "pystr \<Rightarrow> (nat \<Rightarrow> pyexc + pystr) \<Rightarrow> nat \<Rightarrow> Database \<Rightarrow> int \<Rightarrow> Issue list
   \<Rightarrow> pyexc option \<times> Database" where
  "post_loop now snd_k k db gid [] = (None, db)"
| "post_loop now snd_k k db gid (issue # rest) =
     (case add_issue now db gid None (file issue) (Some (line_start issue))
             (Some (line_end issue)) (severity issue) (title issue)
             (Some (explanation issue)) (Some (suggestion issue)) of
        Inl e \<Rightarrow> (Some e, db)
      | Inr (issue_db_id, db1) \<Rightarrow>
          (case snd_k k of
             Inl e \<Rightarrow> (Some e, db1)
           | Inr msg_id \<Rightarrow>
               post_loop now snd_k (Suc k) (update_issue_message_id db1 issue_db_id msg_id)
                 gid rest))"

text \<open>
  \<^verbatim>\<open>_post_issues\<close>: without the channel nothing is stored; else the summary is sent
  first. The result is the exception raised, if any, and the store.
\<close>

definition post_issues ::
  "pystr \<Rightarrow> sink \<Rightarrow> Database \<Rightarrow> int \<Rightarrow> Issue list \<Rightarrow> pyexc option \<times> Database" where
  "post_issues now chan db gid new_issues =
     (if \<not> channel_found chan then (None, db)
      else
        (case send chan 0 of
           Inl e \<Rightarrow> (Some e, db)
         | Inr msg_id \<Rightarrow> post_loop now (send chan) 1 db gid new_issues))"

text \<open>
  The review of \<^verbatim>\<open>_sync_loop\<close> (the block under \<^verbatim>\<open>if script_files\<close>): the unresolved
  findings are read, the diff is reviewed, an exception of the review is recorded with
  \<open>update_last_error\<close> and gives no findings; the findings that \<open>final_dedup\<close> does not
  know are posted, all of them looked up before any is stored.
\<close>

definition reviewed :: "pylib \<Rightarrow> oracle_fn \<Rightarrow> Database \<Rightarrow> int \<Rightarrow> pystr \<Rightarrow> Issue list" where
  "reviewed lib orc db gid d =
     (case fst (review_diff lib orc d (get_unresolved_issues db gid)) of
        Inl exc \<Rightarrow> []
      | Inr found \<Rightarrow> found)"

definition review_and_post ::
  "pylib \<Rightarrow> oracle_fn \<Rightarrow> sink \<Rightarrow> pystr \<Rightarrow> Database \<Rightarrow> int \<Rightarrow> pystr
   \<Rightarrow> pyexc option \<times> Database" where
  "review_and_post lib orc chan now db gid d =
     (let db1 = (case fst (review_diff lib orc d (get_unresolved_issues db gid)) of
                   Inl exc \<Rightarrow> snd (update_last_error now db gid (exc_message exc))
                 | Inr found \<Rightarrow> db);
          new_issues = filter (\<lambda>i. \<not> final_dedup db1 gid (file i) (title i))
                         (reviewed lib orc db gid d)
      in if new_issues \<noteq> [] then post_issues now chan db1 gid new_issues else (None, db1))"

text \<open>
  What one iteration of \<^verbatim>\<open>_sync_loop\<close> gets from outside: the decrypted key, the outcome
  of the syncback, the diff and the changed files of the history tool, the oracle, the
  channel, and the outcome of the commit.
\<close>

record sync_env =
  decrypted :: "pyexc + pystr"
  syncback :: "pyexc option"
  git_diff :: pystr
  git_diff_name_only :: "pystr list"
  claude :: oracle_fn
  channel :: sink
  git_commit :: "pyexc option"

text \<open>
  The \<^verbatim>\<open>try\<close> block of one iteration: an empty diff skips to the sleep; else the changed
  files are auto-resolved, the diff is reviewed when a changed file is reviewable, and
  after the commit the sync is recorded.
\<close>

definition sync_body ::
  "pylib \<Rightarrow> sync_env \<Rightarrow> pystr \<Rightarrow> Database \<Rightarrow> int \<Rightarrow> pyexc option \<times> Database" where
  "sync_body lib env now db gid =
     (case decrypted env of
        Inl e \<Rightarrow> (Some e, db)
      | Inr api_key \<Rightarrow>
          (case syncback env of
             Some e \<Rightarrow> (Some e, db)
           | None \<Rightarrow>
               if git_diff env = [] then (None, db)
               else
                 (let db1 = fst (auto_resolve now db gid (git_diff_name_only env));
                      script_files = filter reviewable_path (git_diff_name_only env);
                      posted = (if script_files \<noteq> []
                                then review_and_post lib (claude env) (channel env) now db1 gid
                                       (git_diff env)
                                else (None, db1))
                  in case fst posted of
                       Some e \<Rightarrow> (Some e, snd posted)
                     | None \<Rightarrow>
                         (case git_commit env of
                            Some e \<Rightarrow> (Some e, snd posted)
                          | None \<Rightarrow> (None, update_last_sync now (snd posted) gid)))))"

text \<open>
  One iteration: an exception of the \<^verbatim>\<open>try\<close> block is recorded with
  \<open>update_last_error\<close> (and reported when that says so); the loop goes on.
\<close>

definition sync_iteration :: "pylib \<Rightarrow> sync_env \<Rightarrow> pystr \<Rightarrow> Database \<Rightarrow> int \<Rightarrow> Database" where
  "sync_iteration lib env now db gid =
     (case sync_body lib env now db gid of
        (None, db') \<Rightarrow> db'
      | (Some e, db') \<Rightarrow> snd (update_last_error now db' gid (exc_message e)))"

text \<open>
  The findings that are open: the workspace, the file and the title of every unresolved
  row. The store keeps open findings unique when no key is there twice.
\<close>

definition open_keys :: "Database \<Rightarrow> (int \<times> pystr \<times> pystr) list" where
  "open_keys db =
     map (\<lambda>r. (game_id r, file_path r, db_title r)) (filter (\<lambda>r. \<not> resolved r) (issues db))"


section \<open>security.py: the credential codec\<close>

text \<open>
  Bytes are lists of numbers below 256. \<^verbatim>\<open>str.encode()\<close> is UTF-8; a surrogate (from
  55296 to 57343) has no encoding and raises \<^verbatim>\<open>UnicodeEncodeError\<close>. The largest code
  point of a Python str is 1114111.
\<close>

type_synonym bytes = "nat list"



subsection \<open>\<^verbatim>\<open>hashlib.sha256\<close>\<close>

text \<open>
  SHA-256 as in FIPS 180-4, on words of 32 bits. \<open>K256\<close> holds the 64 round constants
  and \<open>H256\<close> the initial hash value (in decimal).
\<close>

type_synonym w32 = "32 word"

definition K256 :: "w32 list" where
  "K256 =
    [1116352408, 1899447441, 3049323471, 3921009573, 961987163, 1508970993,
     2453635748, 2870763221, 3624381080, 310598401, 607225278, 1426881987,
     1925078388, 2162078206, 2614888103, 3248222580, 3835390401, 4022224774,
     264347078, 604807628, 770255983, 1249150122, 1555081692, 1996064986,
     2554220882, 2821834349, 2952996808, 3210313671, 3336571891, 3584528711,
     113926993, 338241895, 666307205, 773529912, 1294757372, 1396182291,
     1695183700, 1986661051, 2177026350, 2456956037, 2730485921, 2820302411,
     3259730800, 3345764771, 3516065817, 3600352804, 4094571909, 275423344,
     430227734, 506948616, 659060556, 883997877, 958139571, 1322822218,
     1537002063, 1747873779, 1955562222, 2024104815, 2227730452, 2361852424,
     2428436474, 2756734187, 3204031479, 3329325298]"

definition H256 :: "w32 list" where
  "H256 =
    [1779033703, 3144134277, 1013904242, 2773480762,
     1359893119, 2600822924, 528734635, 1541459225]"

definition rotr :: "nat \<Rightarrow> w32 \<Rightarrow> w32" where
  "rotr n w = word_rotr n w"

definition Ch :: "w32 \<Rightarrow> w32 \<Rightarrow> w32 \<Rightarrow> w32" where
  "Ch x y z = (x AND y) XOR (NOT x AND z)"

definition Maj :: "w32 \<Rightarrow> w32 \<Rightarrow> w32 \<Rightarrow> w32" where
  "Maj x y z = (x AND y) XOR (x AND z) XOR (y AND z)"

definition Sigma0 :: "w32 \<Rightarrow> w32" where
  "Sigma0 x = rotr 2 x XOR rotr 13 x XOR rotr 22 x"

definition Sigma1 :: "w32 \<Rightarrow> w32" where
  "Sigma1 x = rotr 6 x XOR rotr 11 x XOR rotr 25 x"

definition sigma0 :: "w32 \<Rightarrow> w32" where
  "sigma0 x = rotr 7 x XOR rotr 18 x XOR drop_bit 3 x"

definition sigma1 :: "w32 \<Rightarrow> w32" where
  "sigma1 x = rotr 17 x XOR rotr 19 x XOR drop_bit 10 x"

text \<open>The message schedule, the words so far with the newest first.\<close>

fun schedule :: "nat \<Rightarrow> w32 list \<Rightarrow> w32 list" where
  "schedule 0 ws = ws"
| "schedule (Suc n) ws =
     schedule n ((sigma1 (ws ! 1) + ws ! 6 + sigma0 (ws ! 14) + ws ! 15) # ws)"

text \<open>One round on the eight working variables, with its constant and its word.\<close>

definition round_step :: "w32 list \<Rightarrow> w32 \<times> w32 \<Rightarrow> w32 list" where
  "round_step st kw =
     (case st of
        [a, b, c, d, e, f, g, h] \<Rightarrow>
          (let t1 = h + Sigma1 e + Ch e f g + fst kw + snd kw;
               t2 = Sigma0 a + Maj a b c
           in [t1 + t2, a, b, c, d + t1, e, f, g])
      | _ \<Rightarrow> st)"

definition rounds :: "w32 list \<Rightarrow> w32 list \<Rightarrow> w32 list \<Rightarrow> w32 list" where
  "rounds st ks ws = foldl round_step st (zip ks ws)"

definition be32 :: "bytes \<Rightarrow> w32" where
  "be32 bs = word_of_nat (foldl (\<lambda>a b. a * 256 + b) 0 bs)"

fun words_of :: "bytes \<Rightarrow> w32 list" where
  "words_of (a # b # c # d # r) = be32 [a, b, c, d] # words_of r"
| "words_of r = []"

definition compress :: "w32 list \<Rightarrow> bytes \<Rightarrow> w32 list" where
  "compress hs block =
     map2 (+) hs (rounds hs K256 (rev (schedule 48 (rev (words_of block)))))"

fun sha_blocks :: "nat \<Rightarrow> w32 list \<Rightarrow> bytes \<Rightarrow> w32 list" where
  "sha_blocks 0 hs m = hs"
| "sha_blocks (Suc n) hs m = sha_blocks n (compress hs (take 64 m)) (drop 64 m)"

text \<open>The \<open>n\<close> bytes of a number, the most significant first.\<close>

definition be_bytes :: "nat \<Rightarrow> nat \<Rightarrow> bytes" where
  "be_bytes n v = map (\<lambda>i. (v div 256 ^ (n - 1 - i)) mod 256) [0..<n]"

definition sha_pad :: "bytes \<Rightarrow> bytes" where
  "sha_pad m = m @ [128] @ replicate ((119 - length m mod 64) mod 64) 0 @ be_bytes 8 (8 * length m)"

definition sha256 :: "bytes \<Rightarrow> bytes" where
  "sha256 m =
     concat (map (\<lambda>w. be_bytes 4 (unat w)) (sha_blocks (length (sha_pad m) div 64) H256 (sha_pad m)))"

subsection \<open>\<^verbatim>\<open>base64.urlsafe_b64encode\<close> and \<^verbatim>\<open>base64.urlsafe_b64decode\<close>\<close>






subsection \<open>The Fernet key and \<^verbatim>\<open>init_encryption\<close>\<close>





section \<open>The shape of a list of lines\<close>

text \<open>
  What the lines of \<open>splitlines True\<close> look like: a closed line is a run of characters
  that are no line boundaries followed by one boundary; only the last line may be open
  (no boundary at its end); and a line that ends in CR is never followed by a line that
  starts with LF, since the two would have been one boundary.
\<close>

definition closed_line :: "pystr \<Rightarrow> bool" where
  "closed_line l =
     (\<exists>body t. l = body @ t \<and> \<not> list_ex is_linebreak body \<and>
        (t = [13, 10] \<or> (\<exists>c. t = [c] \<and> is_linebreak c)))"

definition open_line :: "pystr \<Rightarrow> bool" where
  "open_line l = (l \<noteq> [] \<and> \<not> list_ex is_linebreak l)"

fun lines_ok :: "pystr list \<Rightarrow> bool" where
  "lines_ok [] = True"
| "lines_ok [l] = (closed_line l \<or> open_line l)"
| "lines_ok (l # l' # ls) =
     (closed_line l \<and> \<not> (last l = 13 \<and> hd l' = 10) \<and> lines_ok (l' # ls))"


text \<open>
  A line without its line end, as \<open>splitlines False\<close> gives it.
\<close>

definition chomp :: "pystr \<Rightarrow> pystr" where
  "chomp l =
     (if endswith l [13, 10] then take (length l - 2) l
      else if l \<noteq> [] \<and> is_linebreak (last l) then butlast l
      else l)"

section \<open>The segments of a diff as lists of lines\<close>

text \<open>
  The loop of \<^verbatim>\<open>split_diff_by_file\<close> with every segment kept as the list of its lines,
  before \<^verbatim>\<open>"".join\<close> makes one string of them; \<open>blocks_of\<close> is \<open>split_diff_by_file\<close>
  without that last step.
\<close>

fun group_loop :: "pystr list list \<Rightarrow> pystr list \<Rightarrow> pystr list \<Rightarrow> pystr list list" where
  "group_loop groups current [] = (if current \<noteq> [] then groups @ [current] else groups)"
| "group_loop groups current (line # rest) =
     (if startswith line (py ''diff --git '') then
        group_loop (if current \<noteq> [] then groups @ [current] else groups) [line] rest
      else group_loop groups (current @ [line]) rest)"

definition blocks_of :: "pystr \<Rightarrow> pystr list list" where
  "blocks_of d = group_loop [] [] (splitlines True d)"

text \<open>The lines of one segment: no line but the first starts a new file.\<close>

definition one_file :: "pystr list \<Rightarrow> bool" where
  "one_file b = (b \<noteq> [] \<and> \<not> list_ex (\<lambda>l. startswith l (py ''diff --git '')) (tl b))"

text \<open>
  The lines of a segment with a newline put behind it: after a last line that ends in
  CR the newline makes that line end CR LF, else it is one more line, an empty one.
\<close>

definition nl :: "pystr list \<Rightarrow> pystr list" where
  "nl b = (if last (last b) = 13 then butlast b @ [last b @ [10]] else b @ [[10]])"

text \<open>
  What \<^verbatim>\<open>"\n".join\<close> makes of a list of segments: every segment but the last gets a
  newline behind it.
\<close>

definition sealed :: "pystr list list \<Rightarrow> pystr list list" where
  "sealed bs = map nl (butlast bs) @ [last bs]"

text \<open>The reviewable segments of a diff, as lists of lines.\<close>

definition kept_blocks :: "pystr \<Rightarrow> pystr list list" where
  "kept_blocks d = filter (\<lambda>b. reviewable_path (extract_file_path (concat b))) (blocks_of d)"

text \<open>
  What holds of the segments of a diff, and of any sublist of them: each is one file
  made of well-formed lines, each but the last ends with a closed line, and each but
  the first starts with \<^verbatim>\<open>diff --git \<close>.
\<close>

definition blocks_ok :: "pystr list list \<Rightarrow> bool" where
  "blocks_ok bs =
     ((\<forall>b\<in>set bs. one_file b \<and> lines_ok b)
      \<and> (\<forall>b\<in>set (butlast bs). closed_line (last b))
      \<and> (\<forall>b\<in>set (tl bs). startswith (hd b) (py ''diff --git '')))"


text \<open>The row of a finding after \<open>auto_resolve\<close> has resolved it.\<close>

definition auto_resolved :: "pystr \<Rightarrow> DBIssue \<Rightarrow> DBIssue" where
  "auto_resolved now r =
     r\<lparr>resolved := True, resolved_by := Some (py ''auto''),
       resolved_reason := Some (py ''file modified''), resolved_at := Some now\<rparr>"

section \<open>The elements of an answer\<close>






text \<open>A store with one workspace in the cleared error state, for the examples below.\<close>

definition example_game :: Game where
  "example_game =
     \<lparr>g_id = 1, discord_server_id = py ''42'', place_id = 7, channel_id = py ''9'',
      api_key_encrypted = [], added_by = py ''5'', working_dir = py ''data/42/7'',
      last_sync_at = None, last_error = None, last_error_at = None,
      error_count = Some 0, g_created_at = py ''2025-01-01 00:00:00''\<rparr>"

definition example_db :: Database where
  "example_db = \<lparr>games = [1 \<mapsto> example_game], issues = [], issue_seq = 0\<rparr>"

text \<open>Three per-file segments of a unified diff, for the examples below.\<close>

definition unlines :: "string list \<Rightarrow> pystr" where
  "unlines ls = concat (map (\<lambda>l. py l @ [10]) ls)"

definition lua_chunk :: pystr where
  "lua_chunk = unlines [''diff --git a/src/a.lua b/src/a.lua'', ''--- a/src/a.lua'',
     ''+++ b/src/a.lua'', ''@@ -1 +1 @@'', ''-x = 1'', ''+x = 2'']"

definition luau_chunk :: pystr where
  "luau_chunk = unlines [''diff --git a/b.luau b/b.luau'', ''--- a/b.luau'',
     ''+++ b/b.luau'', ''@@ -3 +3 @@'', ''-f()'', ''+g()'']"

definition json_chunk :: pystr where
  "json_chunk = unlines [''diff --git a/default.project.json b/default.project.json'',
     ''--- a/default.project.json'', ''+++ b/default.project.json'', ''@@ -1 +1 @@'',
     ''-{}'', ''+{ }'']"

text \<open>
  The lines of the first two segments, and a long added line, of 600001 characters:
  with it the segment of the Lua file alone is above the limit of a single review.
\<close>

definition lua_lines :: "pystr list" where
  "lua_lines = map py [''diff --git a/src/a.lua b/src/a.lua'', ''--- a/src/a.lua'',
     ''+++ b/src/a.lua'', ''@@ -1 +1 @@'', ''-x = 1'', ''+x = 2'']"

definition luau_lines :: "pystr list" where
  "luau_lines = map py [''diff --git a/b.luau b/b.luau'', ''--- a/b.luau'',
     ''+++ b/b.luau'', ''@@ -3 +3 @@'', ''-f()'', ''+g()'']"

definition long_line :: pystr where
  "long_line = 43 # replicate 600000 120"

definition big_chunk :: pystr where
  "big_chunk = lua_chunk @ long_line @ [10]"

text \<open>
  The example store with two unresolved findings of workspace 1, one on \<^verbatim>\<open>a.luau\<close>
  and one on \<^verbatim>\<open>b.lua\<close>.
\<close>

definition open_issue :: "int \<Rightarrow> pystr \<Rightarrow> pystr \<Rightarrow> DBIssue" where
  "open_issue i path ttl =
     \<lparr>issue_id = i, game_id = 1, discord_message_id = None, file_path = path,
      db_line_start = Some 5, db_line_end = Some 5, db_severity = py ''High'',
      db_title = ttl, db_explanation = Some [], db_suggestion = Some [],
      resolved = False, resolved_by = None, resolved_reason = None, resolved_at = None,
      created_at = py ''2025-01-01 00:00:00''\<rparr>"

definition findings_db :: Database where
  "findings_db =
     example_db\<lparr>issues := [open_issue 1 (py ''a.luau'') (py ''Unsafe call''),
                             open_issue 2 (py ''b.lua'') (py ''Leak'')],
                 issue_seq := 2\<rparr>"

text \<open>
  A channel that is found and takes every message, and three oracles: one that answers
  every call with the same finding twice, one whose finding has a severity of its own,
  and one that fails on every call.
\<close>

definition open_channel :: sink where
  "open_channel = \<lparr>channel_found = True, send = (\<lambda>k. Inr (py ''1300000000000000000''))\<rparr>"

definition twice_oracle :: oracle_fn where
  \<open>twice_oracle i content =
     Inr (py ''[{"file":"a.lua","title":"T"},{"file":"a.lua","title":"T"}]'')\<close>


definition failing_oracle :: oracle_fn where
  "failing_oracle i content = Inl (PyExc APIError (py ''Connection error.''))"


text \<open>An oracle whose first call fails and whose other calls answer with one finding.\<close>

definition flaky_oracle :: oracle_fn where
  \<open>flaky_oracle i content =
     (if i = 0 then Inl (PyExc APIError (py ''Connection error.''))
      else Inr (py ''[{"file":"b.luau","title":"T"}]''))\<close>

text \<open>The library tables with nothing above 127, for the examples (all ASCII).\<close>

definition ascii_lib :: pylib where
  "ascii_lib =
     \<lparr>uni_isalnum = (\<lambda>c. False), uni_todecimal = (\<lambda>c. None),
      uni_isprintable = (\<lambda>c. False), float_repr = (\<lambda>f. [])\<rparr>"



section \<open>The error throttle\<close>

lemma ule_same:
  "games db gid = Some row \<Longrightarrow> last_error row = Some e \<Longrightarrow>
   update_last_error now db gid e =
     (stored_count db gid + 1 = 1 \<or> (stored_count db gid + 1) mod 12 = 0,
      db\<lparr>games := (games db)(gid \<mapsto> row\<lparr>error_count := Some (stored_count db gid + 1)\<rparr>)\<rparr>)"
  by (simp add: update_last_error_def stored_count_def Let_def)

lemma ule_other:
  "games db gid = Some row \<Longrightarrow> last_error row \<noteq> Some e \<Longrightarrow>
   update_last_error now db gid e =
     (True, db\<lparr>games := (games db)(gid \<mapsto>
        row\<lparr>last_error := Some e, last_error_at := Some now, error_count := Some 1\<rparr>)\<rparr>)"
  by (simp add: update_last_error_def)

lemma upt_shift: "map f [1..<Suc (Suc n)] = f 1 # map (\<lambda>k. f (Suc k)) [1..<Suc n]"
proof -
  have "[1..<Suc (Suc n)] = 1 # map Suc [1..<Suc n]"
    by (metis One_nat_def map_Suc_upt upt_conv_Cons zero_less_Suc Suc_less_eq)
  then show ?thesis by (simp add: comp_def)
qed

lemma run_same:
  "games db gid = Some row \<Longrightarrow> last_error row = Some e \<Longrightarrow>
   fst (record_errors db gid (map (\<lambda>t. (t, e)) ts)) =
     map (\<lambda>k. stored_count db gid + int k = 1 \<or> (stored_count db gid + int k) mod 12 = 0)
       [1..<Suc (length ts)]"
proof (induction ts arbitrary: db row)
  case Nil
  then show ?case by simp
next
  case (Cons t ts)
  let ?c = "stored_count db gid + 1"
  let ?row = "row\<lparr>error_count := Some ?c\<rparr>"
  let ?db = "db\<lparr>games := (games db)(gid \<mapsto> ?row)\<rparr>"
  have step: "update_last_error t db gid e = (?c = 1 \<or> ?c mod 12 = 0, ?db)"
    using Cons.prems by (rule ule_same)
  have g: "games ?db gid = Some ?row" by simp
  have l: "last_error ?row = Some e" using Cons.prems by simp
  have c: "stored_count ?db gid = ?c" by (simp add: stored_count_def)
  have ih: "fst (record_errors ?db gid (map (\<lambda>t. (t, e)) ts)) =
     map (\<lambda>k. ?c + int k = 1 \<or> (?c + int k) mod 12 = 0) [1..<Suc (length ts)]"
    using Cons.IH [OF g l] by (simp only: c)
  have run: "fst (record_errors db gid (map (\<lambda>t. (t, e)) (t # ts))) =
      (?c = 1 \<or> ?c mod 12 = 0) # fst (record_errors ?db gid (map (\<lambda>t. (t, e)) ts))"
    using step by (simp split: prod.splits)
  have "map (\<lambda>k. stored_count db gid + int k = 1 \<or> (stored_count db gid + int k) mod 12 = 0)
       [1..<Suc (length (t # ts))] =
     (?c = 1 \<or> ?c mod 12 = 0) #
       map (\<lambda>k. ?c + int k = 1 \<or> (?c + int k) mod 12 = 0) [1..<Suc (length ts)]"
    by (simp only: length_Cons upt_shift) (simp add: add.commute add.left_commute del: upt_Suc)
  then show ?case using run ih by (simp only:)
qed

lemma run_fresh:
  assumes g: "games db gid = Some row" and l: "last_error row = None"
  shows "fst (record_errors db gid (map (\<lambda>t. (t, e)) ts)) =
     map (\<lambda>k. k = 1 \<or> k mod 12 = 0) [1..<Suc (length ts)]"
proof (cases ts)
  case Nil
  then show ?thesis by simp
next
  case (Cons t ts')
  let ?row = "row\<lparr>last_error := Some e, last_error_at := Some t, error_count := Some 1\<rparr>"
  let ?db = "db\<lparr>games := (games db)(gid \<mapsto> ?row)\<rparr>"
  have step: "update_last_error t db gid e = (True, ?db)"
    using g l by (simp add: ule_other)
  have g': "games ?db gid = Some ?row" by simp
  have l': "last_error ?row = Some e" by simp
  have c: "stored_count ?db gid = 1" by (simp add: stored_count_def)
  have eq: "\<And>k::nat. (1 + int k = 1 \<or> (1 + int k) mod 12 = 0) = (Suc k = 1 \<or> Suc k mod 12 = 0)"
    by presburger
  have rest: "fst (record_errors ?db gid (map (\<lambda>t. (t, e)) ts')) =
      map (\<lambda>k. Suc k = 1 \<or> Suc k mod 12 = 0) [1..<Suc (length ts')]"
    using run_same [OF g' l', of ts'] by (simp only: c eq)
  have run: "fst (record_errors db gid (map (\<lambda>t. (t, e)) (t # ts'))) =
      True # fst (record_errors ?db gid (map (\<lambda>t. (t, e)) ts'))"
    using step by (simp split: prod.splits)
  have "map (\<lambda>k. k = 1 \<or> k mod 12 = 0) [1..<Suc (length (t # ts'))] =
      True # map (\<lambda>k. Suc k = 1 \<or> Suc k mod 12 = 0) [1..<Suc (length ts')]"
    by (simp only: length_Cons upt_shift) simp
  then show ?thesis using run rest Cons by (simp only:)
qed

lemma flags13: "map (\<lambda>k::nat. k = 1 \<or> k mod 12 = 0) [1..<Suc 13] =
   [True, False, False, False, False, False, False, False, False, False, False, True, False]"
  by (simp add: upt_rec)

text \<open>
  C1. For a workspace that has a row: a call of \<open>update_last_error\<close> whose message is the
  stored one adds one to the repeat counter and reports exactly when the new counter is 1
  or a multiple of 12, leaving message and timestamp alone; a call with any other message
  sets the counter to 1, stores the message and the timestamp and reports. From a cleared
  error state, the \<open>k\<close>-th of a run of calls with one message reports exactly when
  \<open>k = 1\<close> or \<open>k\<close> is a multiple of 12: of 13 calls, the 1st and the 12th.
\<close>

theorem update_last_error_throttle:
  assumes "games db gid = Some row"
  shows "(last_error row = Some e \<longrightarrow>
            update_last_error now db gid e =
              (stored_count db gid + 1 = 1 \<or> (stored_count db gid + 1) mod 12 = 0,
               db\<lparr>games := (games db)(gid \<mapsto>
                  row\<lparr>error_count := Some (stored_count db gid + 1)\<rparr>)\<rparr>))
       \<and> (last_error row \<noteq> Some e \<longrightarrow>
            update_last_error now db gid e =
              (True,
               db\<lparr>games := (games db)(gid \<mapsto>
                  row\<lparr>last_error := Some e, last_error_at := Some now,
                      error_count := Some 1\<rparr>)\<rparr>))
       \<and> (last_error row = None \<longrightarrow>
            fst (record_errors db gid (map (\<lambda>t. (t, e)) ts)) =
              map (\<lambda>k. k = 1 \<or> k mod 12 = 0) [1..<Suc (length ts)])
       \<and> (last_error row = None \<longrightarrow> length ts = 13 \<longrightarrow>
            fst (record_errors db gid (map (\<lambda>t. (t, e)) ts)) =
              [True, False, False, False, False, False, False, False, False, False, False,
               True, False])"
proof (intro conjI impI)
  assume "last_error row = Some e"
  with assms show "update_last_error now db gid e =
              (stored_count db gid + 1 = 1 \<or> (stored_count db gid + 1) mod 12 = 0,
               db\<lparr>games := (games db)(gid \<mapsto>
                  row\<lparr>error_count := Some (stored_count db gid + 1)\<rparr>)\<rparr>)"
    by (rule ule_same)
next
  assume "last_error row \<noteq> Some e"
  with assms show "update_last_error now db gid e =
              (True,
               db\<lparr>games := (games db)(gid \<mapsto>
                  row\<lparr>last_error := Some e, last_error_at := Some now,
                      error_count := Some 1\<rparr>)\<rparr>)"
    by (rule ule_other)
next
  assume "last_error row = None"
  with assms show "fst (record_errors db gid (map (\<lambda>t. (t, e)) ts)) =
              map (\<lambda>k. k = 1 \<or> k mod 12 = 0) [1..<Suc (length ts)]"
    by (rule run_fresh)
next
  assume l: "last_error row = None" and n: "length ts = 13"
  show "fst (record_errors db gid (map (\<lambda>t. (t, e)) ts)) =
              [True, False, False, False, False, False, False, False, False, False, False,
               True, False]"
    using run_fresh [OF assms l, of e ts] flags13 by (simp only: n)
qed

text \<open>The same on the example store: 13 times \<^verbatim>\<open>HTTP 403\<close>, and a second, different message.\<close>

theorem update_last_error_throttle_witness:
  "games example_db 1 = Some example_game
   \<and> last_error example_game = None
   \<and> fst (record_errors example_db 1
        (map (\<lambda>t. (t, py ''HTTP 403'')) (replicate 13 (py ''2025-01-02T00:00:00+00:00'')))) =
       [True, False, False, False, False, False, False, False, False, False, False, True, False]
   \<and> fst (update_last_error (py ''2025-01-02T00:00:00+00:00'')
        (snd (update_last_error (py ''2025-01-02T00:00:00+00:00'') example_db 1 (py ''HTTP 403'')))
        1 (py ''Failed to download'')) = True"
proof -
  have g: "games example_db 1 = Some example_game" by (simp add: example_db_def)
  have l: "last_error example_game = None" by (simp add: example_game_def)
  have l': "last_error example_game \<noteq> Some (py ''HTTP 403'')" by (simp add: example_game_def)
  note t = update_last_error_throttle [OF g, of "py ''HTTP 403''" "py ''2025-01-02T00:00:00+00:00''"
      "replicate 13 (py ''2025-01-02T00:00:00+00:00'')"]
  have n: "length (replicate 13 (py ''2025-01-02T00:00:00+00:00'')) = 13" by simp
  have seq: "fst (record_errors example_db 1
        (map (\<lambda>t. (t, py ''HTTP 403'')) (replicate 13 (py ''2025-01-02T00:00:00+00:00'')))) =
       [True, False, False, False, False, False, False, False, False, False, False, True, False]"
    by (rule t [THEN conjunct2, THEN conjunct2, THEN conjunct2, rule_format, OF l n])
  from t l' have first: "update_last_error (py ''2025-01-02T00:00:00+00:00'') example_db 1 (py ''HTTP 403'') =
      (True, example_db\<lparr>games := (games example_db)(1 \<mapsto>
                  example_game\<lparr>last_error := Some (py ''HTTP 403''),
                      last_error_at := Some (py ''2025-01-02T00:00:00+00:00''),
                      error_count := Some 1\<rparr>)\<rparr>)"
    by blast
  have second: "fst (update_last_error (py ''2025-01-02T00:00:00+00:00'')
        (snd (update_last_error (py ''2025-01-02T00:00:00+00:00'') example_db 1 (py ''HTTP 403'')))
        1 (py ''Failed to download'')) = True"
    unfolding first by (simp add: update_last_error_def py_def)
  from g l seq second show ?thesis by blast
qed

section \<open>The per-file splitter\<close>

lemma concat_splitlines_from: "concat (splitlines_from True cur s) = cur @ s"
  by (induction "True" cur s rule: splitlines_from.induct) auto






lemmas review_eval =
  filter_script_changes_def split_diff_by_file_def splitlines_def is_linebreak_def py_def
  startswith_def extract_file_path_def reviewable_path_def REVIEWABLE_EXTENSIONS_def
  endswith_def strip_def is_space_def unlines_def lua_chunk_def luau_chunk_def json_chunk_def

lemma split_lua_json: "split_diff_by_file (lua_chunk @ json_chunk) = [lua_chunk, json_chunk]"
  by (simp add: review_eval)



section \<open>The reviewable-file filter\<close>

lemma scan_plain:
  "\<not> is_linebreak c \<Longrightarrow> splitlines_from k cur (c # s) = splitlines_from k (cur @ [c]) s"
  by (cases s) (auto simp: is_linebreak_def)

lemma scan_body:
  "\<not> list_ex is_linebreak body \<Longrightarrow>
   splitlines_from k cur (body @ s) = splitlines_from k (cur @ body) s"
  by (induction body arbitrary: cur) (simp_all add: scan_plain)

lemma scan_break:
  "is_linebreak c \<Longrightarrow> \<not> (c = 13 \<and> s \<noteq> [] \<and> hd s = 10) \<Longrightarrow>
   splitlines_from True cur (c # s) = (cur @ [c]) # splitlines_from True [] s"
  by (cases s) auto

lemma scan_crlf:
  "splitlines_from True cur (13 # 10 # s) = (cur @ [13, 10]) # splitlines_from True [] s"
  by simp

lemma closed_line_nonempty: "closed_line l \<Longrightarrow> l \<noteq> []"
  by (auto simp: closed_line_def)

lemma lines_ok_nonempty: "lines_ok ls \<Longrightarrow> [] \<notin> set ls"
  by (induction ls rule: lines_ok.induct) (auto simp: open_line_def dest: closed_line_nonempty)

lemma lines_ok_Cons:
  "lines_ok (l # ls) =
     (if ls = [] then closed_line l \<or> open_line l
      else closed_line l \<and> \<not> (last l = 13 \<and> hd (hd ls) = 10) \<and> lines_ok ls)"
  by (cases ls) auto

lemma hd_concat: "xs \<noteq> [] \<Longrightarrow> hd xs \<noteq> [] \<Longrightarrow> hd (concat xs) = hd (hd xs)"
  by (cases xs) auto

lemma closed_lineI1: "\<not> list_ex is_linebreak cur \<Longrightarrow> is_linebreak c \<Longrightarrow> closed_line (cur @ [c])"
  unfolding closed_line_def by blast

lemma closed_lineI2: "\<not> list_ex is_linebreak cur \<Longrightarrow> closed_line (cur @ [13, 10])"
  unfolding closed_line_def by blast

lemma first_char:
  assumes ok: "lines_ok (splitlines_from True [] (d # s))"
  shows "splitlines_from True [] (d # s) \<noteq> [] \<and> hd (hd (splitlines_from True [] (d # s))) = d"
proof -
  let ?L = "splitlines_from True [] (d # s)"
  have c: "concat ?L = d # s" by (simp add: concat_splitlines_from)
  then have ne: "?L \<noteq> []" by auto
  have "hd ?L \<noteq> []" using lines_ok_nonempty [OF ok] ne by (cases ?L) auto
  then have "hd (concat ?L) = hd (hd ?L)" using ne by (simp add: hd_concat)
  with c ne show ?thesis by simp
qed

lemma lines_ok_splitlines_from:
  "\<not> list_ex is_linebreak cur \<Longrightarrow> lines_ok (splitlines_from True cur s)"
proof (induction "True" cur s rule: splitlines_from.induct)
  case (1 cur)
  then show ?case by (simp add: open_line_def)
next
  case (2 cur c d s)
  show ?case
  proof (cases "c = 13 \<and> d = 10")
    case True
    have r: "lines_ok (splitlines_from True [] s)" using "2.hyps"(1) True by simp
    have cl: "closed_line (cur @ [13, 10])" using "2.prems" by (rule closed_lineI2)
    have eq: "splitlines_from True cur (c # d # s) = (cur @ [13, 10]) # splitlines_from True [] s"
      using True by simp
    have "last (cur @ [13, 10]) \<noteq> 13" by simp
    with r cl show ?thesis unfolding eq by (simp add: lines_ok_Cons)
  next
    case False
    show ?thesis
    proof (cases "is_linebreak c")
      case brk: True
      have r: "lines_ok (splitlines_from True [] (d # s))" using "2.hyps"(2) False brk by simp
      have cl: "closed_line (cur @ [c])" using "2.prems" brk by (rule closed_lineI1)
      have eq: "splitlines_from True cur (c # d # s) = (cur @ [c]) # splitlines_from True [] (d # s)"
        using False brk by simp
      from first_char [OF r] have "\<not> (last (cur @ [c]) = 13 \<and> hd (hd (splitlines_from True [] (d # s))) = 10)"
        using False by auto
      with r cl first_char [OF r] show ?thesis unfolding eq by (simp add: lines_ok_Cons)
    next
      case nb: False
      have eq: "splitlines_from True cur (c # d # s) = splitlines_from True (cur @ [c]) (d # s)"
        using nb by (rule scan_plain)
      have "\<not> list_ex is_linebreak (cur @ [c])" using "2.prems" nb by simp
      with "2.hyps"(3) False nb show ?thesis unfolding eq by simp
    qed
  qed
next
  case (3 cur c)
  show ?case
  proof (cases "is_linebreak c")
    case True
    then show ?thesis using "3.prems" by (simp add: closed_lineI1)
  next
    case False
    then show ?thesis using "3.prems" by (simp add: open_line_def)
  qed
qed

lemma lines_ok_splitlines: "lines_ok (splitlines True s)"
  by (simp add: splitlines_def lines_ok_splitlines_from)

lemma scan_closed_line:
  assumes "closed_line l" and "\<not> (last l = 13 \<and> s \<noteq> [] \<and> hd s = 10)"
  shows "splitlines_from True [] (l @ s) = l # splitlines_from True [] s"
proof -
  from assms(1) obtain body t where l: "l = body @ t" and b: "\<not> list_ex is_linebreak body"
    and t: "t = [13, 10] \<or> (\<exists>c. t = [c] \<and> is_linebreak c)"
    unfolding closed_line_def by blast
  have "splitlines_from True [] (l @ s) = splitlines_from True body (t @ s)"
    using scan_body [OF b, of True "[]" "t @ s"] l by simp
  also have "\<dots> = (body @ t) # splitlines_from True [] s"
  proof (cases "t = [13, 10]")
    case True
    then show ?thesis by simp
  next
    case False
    with t obtain c where c: "t = [c]" "is_linebreak c" by blast
    have "\<not> (c = 13 \<and> s \<noteq> [] \<and> hd s = 10)" using assms(2) l c by simp
    from scan_break [OF c(2) this] c show ?thesis by simp
  qed
  finally show ?thesis using l by simp
qed

lemma scan_open_line: "open_line l \<Longrightarrow> splitlines_from True [] l = [l]"
  using scan_body [of l True "[]" "[]"] by (simp add: open_line_def)

lemma resplit: "lines_ok ls \<Longrightarrow> splitlines True (concat ls) = ls"
proof (induction ls rule: lines_ok.induct)
  case 1
  then show ?case by (simp add: splitlines_def)
next
  case (2 l)
  then show ?case
    using scan_closed_line [of l "[]"] scan_open_line [of l] by (auto simp: splitlines_def)
next
  case (3 l l' ls)
  then have cl: "closed_line l" and nb: "\<not> (last l = 13 \<and> hd l' = 10)" and ok: "lines_ok (l' # ls)"
    by simp_all
  have ne: "l' \<noteq> []" using lines_ok_nonempty [OF ok] by auto
  then have "hd (concat (l' # ls)) = hd l'" by simp
  with nb have "\<not> (last l = 13 \<and> concat (l' # ls) \<noteq> [] \<and> hd (concat (l' # ls)) = 10)" by simp
  from scan_closed_line [OF cl this] "3.IH" ok show ?case by (simp add: splitlines_def)
qed

lemma lines_ok_suffix: "lines_ok (xs @ ys) \<Longrightarrow> lines_ok ys"
  by (induction xs) (auto simp: lines_ok_Cons split: if_splits)

lemma lines_ok_prefix: "lines_ok (xs @ ys) \<Longrightarrow> lines_ok xs"
proof (induction xs)
  case Nil
  then show ?case by simp
next
  case (Cons x xs)
  then show ?case by (cases xs) (auto simp: lines_ok_Cons split: if_splits)
qed

lemma split_loop_plain:
  "\<forall>l\<in>set ls. \<not> startswith l (py ''diff --git '') \<Longrightarrow>
   split_loop chunks current ls =
     (if current @ ls \<noteq> [] then chunks @ [concat (current @ ls)] else chunks)"
  by (induction ls arbitrary: current) auto

lemma split_one:
  assumes ne: "cur \<noteq> []" and ok: "lines_ok cur"
    and tl: "\<forall>l\<in>set (tl cur). \<not> startswith l (py ''diff --git '')"
  shows "split_diff_by_file (concat cur) = [concat cur]"
proof -
  from ne obtain l ls where cur: "cur = l # ls" by (cases cur) auto
  have "split_loop [] [] (l # ls) = split_loop [] [l] ls" by simp
  also have "\<dots> = [concat (l # ls)]" using tl cur by (simp add: split_loop_plain)
  finally show ?thesis using resplit [OF ok] cur by (simp add: split_diff_by_file_def)
qed

lemma split_loop_fixed:
  "lines_ok (current @ ls) \<Longrightarrow>
   \<forall>l\<in>set (tl current). \<not> startswith l (py ''diff --git '') \<Longrightarrow>
   \<forall>c\<in>set chunks. split_diff_by_file c = [c] \<Longrightarrow>
   \<forall>c\<in>set (split_loop chunks current ls). split_diff_by_file c = [c]"
proof (induction chunks current ls rule: split_loop.induct)
  case (1 chunks current)
  then show ?case by (auto simp: split_one)
next
  case (2 chunks current line rest)
  have okc: "lines_ok current" using "2.prems"(1) by (rule lines_ok_prefix)
  show ?case
  proof (cases "startswith line (py ''diff --git '')")
    case True
    let ?chunks = "if current \<noteq> [] then chunks @ [concat current] else chunks"
    have a: "lines_ok ([line] @ rest)" using "2.prems"(1) lines_ok_suffix [of current "line # rest"] by simp
    have b: "\<forall>l\<in>set (tl [line]). \<not> startswith l (py ''diff --git '')" by simp
    have c: "\<forall>c\<in>set ?chunks. split_diff_by_file c = [c]"
      using "2.prems"(2,3) okc by (auto simp: split_one)
    show ?thesis using "2.IH"(1) [OF True a b c] True by simp
  next
    case False
    have a: "lines_ok ((current @ [line]) @ rest)" using "2.prems"(1) by simp
    have b: "\<forall>l\<in>set (tl (current @ [line])). \<not> startswith l (py ''diff --git '')"
      using "2.prems"(2) False by (cases current) auto
    show ?thesis using "2.IH"(2) [OF False a b "2.prems"(3)] False by simp
  qed
qed

lemma split_chunk_fixed: "c \<in> set (split_diff_by_file d) \<Longrightarrow> split_diff_by_file c = [c]"
  using split_loop_fixed [of "[]" "splitlines True d" "[]"] lines_ok_splitlines [of d]
  by (simp add: split_diff_by_file_def)

lemma filter_single:
  assumes "filter (\<lambda>c. reviewable_path (extract_file_path c)) (split_diff_by_file d) = [c]"
  shows "filter_script_changes d = c \<and> filter_script_changes c = c"
proof -
  have "c \<in> set (filter (\<lambda>c. reviewable_path (extract_file_path c)) (split_diff_by_file d))"
    using assms by simp
  then have m: "c \<in> set (split_diff_by_file d)" and r: "reviewable_path (extract_file_path c)"
    by auto
  from split_chunk_fixed [OF m] r assms show ?thesis by (simp add: filter_script_changes_def)
qed

lemma filter_lua_luau:
  "filter_script_changes (lua_chunk @ luau_chunk) = lua_chunk @ [10] @ luau_chunk"
  by (simp add: review_eval)

lemma filter_lua_nl_luau:
  "filter_script_changes (lua_chunk @ [10] @ luau_chunk) = lua_chunk @ [10, 10] @ luau_chunk"
  by (simp add: review_eval)

lemma kept_lua_json:
  "filter (\<lambda>c. reviewable_path (extract_file_path c)) (split_diff_by_file (lua_chunk @ json_chunk))
     = [lua_chunk]"
  unfolding split_lua_json by (simp add: review_eval)

lemma filter_none: "filter_script_changes [] = []"
  by (simp add: filter_script_changes_def split_diff_by_file_def splitlines_def)

text \<open>
  C3, as the code has it. \<open>filter_script_changes\<close> joins the kept segments with a newline
  although each segment still ends with its own line end, so on a diff with two
  reviewable segments a second application reads the added newline as a line of the
  first segment and adds another: the filter applied twice differs from the filter
  applied once.
\<close>

theorem filter_script_changes_not_idempotent:
  "filter_script_changes (filter_script_changes (lua_chunk @ luau_chunk))
     \<noteq> filter_script_changes (lua_chunk @ luau_chunk)"
proof -
  have twice: "filter_script_changes (filter_script_changes (lua_chunk @ luau_chunk))
      = lua_chunk @ [10, 10] @ luau_chunk"
    by (simp only: filter_lua_luau filter_lua_nl_luau)
  have ne: "lua_chunk @ [10, 10] @ luau_chunk \<noteq> lua_chunk @ [10] @ luau_chunk"
    by simp
  show ?thesis by (subst twice, subst filter_lua_luau) (rule ne)
qed


section \<open>The segments of a filtered diff\<close>

lemma scan_break_any:
  "is_linebreak c \<Longrightarrow> \<not> (c = 13 \<and> s \<noteq> [] \<and> hd s = 10) \<Longrightarrow>
   splitlines_from k cur (c # s) = (cur @ (if k then [c] else [])) # splitlines_from k [] s"
  by (cases s) auto

lemma endswith_iff: "endswith l p \<longleftrightarrow> (\<exists>pre. l = pre @ p)"
proof
  assume "endswith l p"
  then have "l = take (length l - length p) l @ p"
    by (metis append_take_drop_id endswith_def)
  then show "\<exists>pre. l = pre @ p" ..
next
  assume "\<exists>pre. l = pre @ p"
  then show "endswith l p" by (auto simp: endswith_def)
qed

lemma chomp_closed:
  assumes b: "\<not> list_ex is_linebreak body"
    and t: "t = [13, 10] \<or> (\<exists>c. t = [c] \<and> is_linebreak c)"
  shows "chomp (body @ t) = body"
proof (cases "t = [13, 10]")
  case True
  have "endswith (body @ [13, 10]) [13, 10]" by (auto simp: endswith_iff)
  with True show ?thesis by (simp add: chomp_def)
next
  case False
  with t obtain c where c: "t = [c]" "is_linebreak c" by blast
  have "\<not> endswith (body @ [c]) [13, 10]"
  proof
    assume "endswith (body @ [c]) [13, 10]"
    then obtain pre where "body @ [c] = pre @ [13, 10]" by (auto simp: endswith_iff)
    then have "body @ [c] = (pre @ [13]) @ [10]" by simp
    then have "body = pre @ [13]" by (simp only: append1_eq_conv)
    with b show False by (simp add: is_linebreak_def)
  qed
  with c show ?thesis by (simp add: chomp_def)
qed

lemma chomp_open: "open_line l \<Longrightarrow> chomp l = l"
proof -
  assume o: "open_line l"
  then have ne: "l \<noteq> []" and nb: "\<not> list_ex is_linebreak l" by (simp_all add: open_line_def)
  have "\<not> is_linebreak (last l)" using ne nb by (auto simp: list_ex_iff)
  moreover have "\<not> endswith l [13, 10]"
  proof
    assume e: "endswith l [13, 10]"
    then obtain pre where "l = pre @ [13, 10]" by (auto simp: endswith_iff)
    with nb show False by (simp add: is_linebreak_def)
  qed
  ultimately show ?thesis by (simp add: chomp_def)
qed

lemma scan_closed_line_chomp:
  assumes "closed_line l" and "\<not> (last l = 13 \<and> s \<noteq> [] \<and> hd s = 10)"
  shows "splitlines_from False [] (l @ s) = chomp l # splitlines_from False [] s"
proof -
  from assms(1) obtain body t where l: "l = body @ t" and b: "\<not> list_ex is_linebreak body"
    and t: "t = [13, 10] \<or> (\<exists>c. t = [c] \<and> is_linebreak c)"
    unfolding closed_line_def by blast
  have ch: "chomp l = body" using chomp_closed [OF b t] l by simp
  have "splitlines_from False [] (l @ s) = splitlines_from False body (t @ s)"
    using scan_body [OF b, of False "[]" "t @ s"] l by simp
  also have "\<dots> = body # splitlines_from False [] s"
  proof (cases "t = [13, 10]")
    case True
    then show ?thesis by simp
  next
    case False
    with t obtain c where c: "t = [c]" "is_linebreak c" by blast
    have "\<not> (c = 13 \<and> s \<noteq> [] \<and> hd s = 10)" using assms(2) l c by simp
    from scan_break_any [OF c(2) this, of False body] c show ?thesis by simp
  qed
  finally show ?thesis using ch by simp
qed

lemma scan_open_line_chomp: "open_line l \<Longrightarrow> splitlines_from False [] l = [chomp l]"
  using scan_body [of l False "[]" "[]"] by (simp add: open_line_def chomp_open)

lemma resplit_chomp: "lines_ok ls \<Longrightarrow> splitlines False (concat ls) = map chomp ls"
proof (induction ls rule: lines_ok.induct)
  case 1
  then show ?case by (simp add: splitlines_def)
next
  case (2 l)
  then show ?case
    using scan_closed_line_chomp [of l "[]"] scan_open_line_chomp [of l] by (auto simp: splitlines_def)
next
  case (3 l l' ls)
  then have cl: "closed_line l" and nb: "\<not> (last l = 13 \<and> hd l' = 10)" and ok: "lines_ok (l' # ls)"
    by simp_all
  have ne: "l' \<noteq> []" using lines_ok_nonempty [OF ok] by auto
  then have "hd (concat (l' # ls)) = hd l'" by simp
  with nb have "\<not> (last l = 13 \<and> concat (l' # ls) \<noteq> [] \<and> hd (concat (l' # ls)) = 10)" by simp
  from scan_closed_line_chomp [OF cl this] "3.IH" ok show ?case by (simp add: splitlines_def)
qed

lemma split_loop_group:
  "split_loop (map concat groups) current ls = map concat (group_loop groups current ls)"
  by (induction groups current ls rule: group_loop.induct) auto

lemma split_blocks: "split_diff_by_file d = map concat (blocks_of d)"
  using split_loop_group [of "[]" "[]" "splitlines True d"]
  by (simp add: split_diff_by_file_def blocks_of_def)

lemma concat_group_loop: "concat (group_loop groups current ls) = concat groups @ current @ ls"
  by (induction groups current ls rule: group_loop.induct) auto

lemma concat_blocks_of: "concat (blocks_of d) = splitlines True d"
  by (simp add: blocks_of_def concat_group_loop)

lemma one_file_snoc:
  "current = [] \<or> one_file current \<Longrightarrow> \<not> startswith line (py ''diff --git '') \<Longrightarrow>
   one_file (current @ [line])"
  by (cases current) (auto simp: one_file_def)

lemma group_loop_one_file:
  "\<forall>b\<in>set groups. one_file b \<Longrightarrow> current = [] \<or> one_file current \<Longrightarrow>
   \<forall>b\<in>set (group_loop groups current ls). one_file b"
proof (induction groups current ls rule: group_loop.induct)
  case (1 groups current)
  then show ?case by auto
next
  case (2 groups current line rest)
  show ?case
  proof (cases "startswith line (py ''diff --git '')")
    case True
    have a: "\<forall>b\<in>set (if current \<noteq> [] then groups @ [current] else groups). one_file b"
      using "2.prems" by auto
    have b: "[line] = [] \<or> one_file [line]" by (simp add: one_file_def)
    show ?thesis using "2.IH"(1) [OF True a b] True by simp
  next
    case False
    from "2.IH"(2) [OF False "2.prems"(1) disjI2 [OF one_file_snoc [OF "2.prems"(2) False]]] False
    show ?thesis by simp
  qed
qed

lemma blocks_one_file: "b \<in> set (blocks_of d) \<Longrightarrow> one_file b"
  using group_loop_one_file [of "[]" "[]" "splitlines True d"] by (simp add: blocks_of_def)

lemma group_loop_heads:
  "\<forall>b\<in>set (tl groups). startswith (hd b) (py ''diff --git '') \<Longrightarrow>
   (groups \<noteq> [] \<longrightarrow> current \<noteq> [] \<and> startswith (hd current) (py ''diff --git '')) \<Longrightarrow>
   \<forall>b\<in>set (tl (group_loop groups current ls)). startswith (hd b) (py ''diff --git '')"
proof (induction groups current ls rule: group_loop.induct)
  case (1 groups current)
  then show ?case by (cases groups) auto
next
  case (2 groups current line rest)
  show ?case
  proof (cases "startswith line (py ''diff --git '')")
    case True
    let ?groups = "if current \<noteq> [] then groups @ [current] else groups"
    have a: "\<forall>b\<in>set (tl ?groups). startswith (hd b) (py ''diff --git '')"
      using "2.prems" by (cases groups) auto
    have b: "?groups \<noteq> [] \<longrightarrow> [line] \<noteq> [] \<and> startswith (hd [line]) (py ''diff --git '')"
      using True by simp
    show ?thesis using "2.IH"(1) [OF True a b] True by simp
  next
    case False
    have b: "groups \<noteq> [] \<longrightarrow> current @ [line] \<noteq> [] \<and> startswith (hd (current @ [line])) (py ''diff --git '')"
      using "2.prems" by (cases current) auto
    show ?thesis using "2.IH"(2) [OF False "2.prems"(1) b] False by simp
  qed
qed

lemma blocks_heads: "b \<in> set (tl (blocks_of d)) \<Longrightarrow> startswith (hd b) (py ''diff --git '')"
  using group_loop_heads [of "[]" "[]" "splitlines True d"] by (simp add: blocks_of_def)

lemma group_loop_plain:
  "\<not> list_ex (\<lambda>l. startswith l (py ''diff --git '')) ls \<Longrightarrow>
   group_loop groups current (ls @ rest) = group_loop groups (current @ ls) rest"
  by (induction ls arbitrary: current) auto

lemma group_loop_blocks:
  "\<forall>b\<in>set bs. one_file b \<and> startswith (hd b) (py ''diff --git '') \<Longrightarrow>
   group_loop groups current (concat bs) =
     groups @ (if current \<noteq> [] then [current] else []) @ bs"
proof (induction bs arbitrary: groups current)
  case Nil
  then show ?case by simp
next
  case (Cons b bs)
  then have ob: "one_file b" and hb: "startswith (hd b) (py ''diff --git '')" by simp_all
  then obtain l ls where b: "b = l # ls" by (cases b) (auto simp: one_file_def)
  have nl: "\<not> list_ex (\<lambda>l. startswith l (py ''diff --git '')) ls"
    using ob b by (simp add: one_file_def)
  let ?groups = "if current \<noteq> [] then groups @ [current] else groups"
  have "group_loop groups current (concat (b # bs)) = group_loop ?groups [l] (ls @ concat bs)"
    using hb b by simp
  also have "\<dots> = group_loop ?groups ([l] @ ls) (concat bs)"
    using nl by (rule group_loop_plain)
  also have "\<dots> = ?groups @ [b] @ bs"
    using Cons.IH [of ?groups "[l] @ ls"] Cons.prems b by simp
  finally show ?case by simp
qed

lemma regroup:
  assumes "\<forall>b\<in>set bs. one_file b"
    and "\<forall>b\<in>set (tl bs). startswith (hd b) (py ''diff --git '')"
  shows "group_loop [] [] (concat bs) = bs"
proof (cases bs)
  case Nil
  then show ?thesis by simp
next
  case (Cons b rest)
  with assms have ob: "one_file b" by simp
  then obtain l ls where b: "b = l # ls" by (cases b) (auto simp: one_file_def)
  have nl: "\<not> list_ex (\<lambda>l. startswith l (py ''diff --git '')) ls"
    using ob b by (simp add: one_file_def)
  have r: "\<forall>b\<in>set rest. one_file b \<and> startswith (hd b) (py ''diff --git '')"
    using assms Cons by simp
  have "group_loop [] [] (concat bs) = group_loop [] [l] (ls @ concat rest)"
    using Cons b by simp
  also have "\<dots> = group_loop [] ([l] @ ls) (concat rest)"
    using nl by (rule group_loop_plain)
  also have "\<dots> = [] @ [b] @ rest"
    using group_loop_blocks [OF r, of "[]" "[l] @ ls"] b by simp
  finally show ?thesis using Cons by simp
qed

lemma lines_ok_append:
  "lines_ok xs \<Longrightarrow> lines_ok ys \<Longrightarrow>
   (xs \<noteq> [] \<longrightarrow> ys \<noteq> [] \<longrightarrow> closed_line (last xs) \<and> \<not> (last (last xs) = 13 \<and> hd (hd ys) = 10)) \<Longrightarrow>
   lines_ok (xs @ ys)"
proof (induction xs)
  case Nil
  then show ?case by simp
next
  case (Cons x xs)
  show ?case
  proof (cases xs)
    case Nil
    with Cons.prems show ?thesis by (cases ys) (auto simp: lines_ok_Cons)
  next
    case (Cons x' xs')
    with Cons.prems Cons.IH show ?thesis by (auto simp: lines_ok_Cons split: if_splits)
  qed
qed

lemma lines_ok_mid:
  "lines_ok (xs @ ys) \<Longrightarrow> xs \<noteq> [] \<Longrightarrow> ys \<noteq> [] \<Longrightarrow>
   closed_line (last xs) \<and> \<not> (last (last xs) = 13 \<and> hd (hd ys) = 10)"
proof (induction xs)
  case Nil
  then show ?case by simp
next
  case (Cons x xs)
  show ?case
  proof (cases xs)
    case Nil
    with Cons.prems show ?thesis by (cases ys) (auto simp: lines_ok_Cons)
  next
    case (Cons x' xs')
    with Cons.prems Cons.IH show ?thesis by (auto simp: lines_ok_Cons split: if_splits)
  qed
qed

lemma lines_ok_replace_last:
  "lines_ok (xs @ [l]) \<Longrightarrow> closed_line l' \<Longrightarrow> hd l' = hd l \<Longrightarrow> lines_ok (xs @ [l'])"
proof (induction xs)
  case Nil
  then show ?case by simp
next
  case (Cons x xs)
  show ?case
  proof (cases xs)
    case Nil
    with Cons.prems show ?thesis by (auto simp: lines_ok_Cons)
  next
    case (Cons x' xs')
    with Cons.prems Cons.IH show ?thesis by (auto simp: lines_ok_Cons split: if_splits)
  qed
qed

lemma closed_line_cr:
  assumes "closed_line l" and "last l = 13"
  shows "\<exists>body. l = body @ [13] \<and> \<not> list_ex is_linebreak body"
proof -
  from assms(1) obtain body t where l: "l = body @ t" and b: "\<not> list_ex is_linebreak body"
    and t: "t = [13, 10] \<or> (\<exists>c. t = [c] \<and> is_linebreak c)"
    unfolding closed_line_def by blast
  from t assms(2) l have "t = [13]" by auto
  with l b show ?thesis by blast
qed

lemma closed_line_nl: "closed_line [10]"
  using closed_lineI1 [of "[]" 10] by (simp add: is_linebreak_def)

lemma nl_concat: "b \<noteq> [] \<Longrightarrow> concat (nl b) = concat b @ [10]"
proof -
  assume ne: "b \<noteq> []"
  then have "b = butlast b @ [last b]" by simp
  then have "concat b = concat (butlast b) @ last b" by (metis concat.simps(2) concat_append append_Nil2 concat.simps(1))
  then show ?thesis by (simp add: nl_def)
qed

lemma nl_lines_ok:
  assumes ne: "b \<noteq> []" and ok: "lines_ok b" and cl: "closed_line (last b)"
  shows "lines_ok (nl b) \<and> closed_line (last (nl b)) \<and> last (last (nl b)) = 10 \<and> nl b \<noteq> []"
proof (cases "last (last b) = 13")
  case True
  from closed_line_cr [OF cl True] obtain body where
    body: "last b = body @ [13]" "\<not> list_ex is_linebreak body" by blast
  have c': "closed_line (last b @ [10])" using closed_lineI2 [OF body(2)] body(1) by simp
  have h: "hd (last b @ [10]) = hd (last b)" using body(1) by (cases body) simp_all
  have "lines_ok (butlast b @ [last b])" using ne ok by simp
  from lines_ok_replace_last [OF this c' h] c' True show ?thesis by (simp add: nl_def)
next
  case False
  have "lines_ok (b @ [[10]])"
    using ok cl False closed_line_nl by (intro lines_ok_append) simp_all
  with False closed_line_nl show ?thesis by (simp add: nl_def)
qed

lemma startswith_snoc_nl:
  assumes "10 \<notin> set p"
  shows "startswith (l @ [10]) p = startswith l p"
proof (cases "length p \<le> length l")
  case True
  then show ?thesis by (simp add: startswith_def)
next
  case False
  have "\<not> startswith l p"
  proof
    assume "startswith l p"
    then have "take (length p) l = p" by (simp add: startswith_def)
    then have "length (take (length p) l) = length p" by simp
    with False show False by simp
  qed
  moreover have "\<not> startswith (l @ [10]) p"
  proof
    assume "startswith (l @ [10]) p"
    then have "take (length p) (l @ [10]) = p" by (simp add: startswith_def)
    then have "l @ [10] = p" using False by simp
    with assms show False by auto
  qed
  ultimately show ?thesis by simp
qed

lemma diff_git_no_nl: "10 \<notin> set (py ''diff --git '')"
  by (simp add: py_def)

lemma nl_one_file:
  assumes "one_file b"
  shows "one_file (nl b) \<and> startswith (hd (nl b)) (py ''diff --git '') = startswith (hd b) (py ''diff --git '')"
proof -
  from assms obtain l ls where b: "b = l # ls" by (cases b) (auto simp: one_file_def)
  have nt: "\<not> list_ex (\<lambda>l. startswith l (py ''diff --git '')) ls"
    using assms b by (simp add: one_file_def)
  have n10: "\<not> startswith [10] (py ''diff --git '')" by (simp add: startswith_def py_def)
  show ?thesis
  proof (cases "last (last b) = 13")
    case False
    then show ?thesis using b nt n10 by (simp add: nl_def one_file_def)
  next
    case True
    show ?thesis
    proof (cases ls)
      case Nil
      with True b show ?thesis
        by (simp add: nl_def one_file_def startswith_snoc_nl [OF diff_git_no_nl])
    next
      case (Cons x xs)
      then have ls: "ls = butlast ls @ [last ls]" by simp
      have "\<not> startswith (last ls) (py ''diff --git '')"
        using nt ls unfolding list_ex_iff by (metis in_set_conv_decomp)
      then have "\<not> startswith (last ls @ [10]) (py ''diff --git '')"
        by (simp add: startswith_snoc_nl [OF diff_git_no_nl])
      moreover have "\<not> list_ex (\<lambda>l. startswith l (py ''diff --git '')) (butlast ls)"
        using nt unfolding list_ex_iff by (meson in_set_butlastD)
      ultimately show ?thesis using True b Cons by (simp add: nl_def one_file_def)
    qed
  qed
qed

lemma extract_loop_snoc_empty: "extract_loop (ls @ [[]]) = extract_loop ls"
  by (induction ls) (simp_all add: startswith_def py_def)

lemma chomp_cr_nl:
  assumes "closed_line l" and "last l = 13"
  shows "chomp (l @ [10]) = chomp l"
proof -
  from closed_line_cr [OF assms] obtain body where
    body: "l = body @ [13]" "\<not> list_ex is_linebreak body" by blast
  have "chomp (body @ [13, 10]) = body" by (rule chomp_closed [OF body(2)]) simp
  moreover have "chomp (body @ [13]) = body"
    by (rule chomp_closed [OF body(2)]) (simp add: is_linebreak_def)
  ultimately show ?thesis using body(1) by simp
qed

lemma nl_extract:
  assumes ne: "b \<noteq> []" and cl: "closed_line (last b)"
  shows "extract_loop (map chomp (nl b)) = extract_loop (map chomp b)"
proof (cases "last (last b) = 13")
  case True
  have "map chomp (butlast b @ [last b @ [10]]) = map chomp (butlast b @ [last b])"
    using chomp_cr_nl [OF cl True] by simp
  then show ?thesis using True ne by (simp add: nl_def)
next
  case False
  have "chomp [10] = []" by (simp add: chomp_def endswith_def is_linebreak_def)
  then show ?thesis using False by (simp add: nl_def extract_loop_snoc_empty)
qed

lemma join_sealed:
  "bs \<noteq> [] \<Longrightarrow> [] \<notin> set bs \<Longrightarrow> join [10] (map concat bs) = concat (concat (sealed bs))"
proof (induction bs)
  case Nil
  then show ?case by simp
next
  case (Cons b bs)
  show ?case
  proof (cases bs)
    case Nil
    then show ?thesis by (simp add: sealed_def)
  next
    case (Cons b' bs')
    have "sealed (b # bs) = nl b # sealed bs" using Cons by (simp add: sealed_def)
    moreover have "b \<noteq> []" using Cons.prems by auto
    ultimately show ?thesis using Cons Cons.IH Cons.prems by (simp add: nl_concat)
  qed
qed

lemma blocks_lines:
  "lines_ok (concat bs) \<Longrightarrow> [] \<notin> set bs \<Longrightarrow>
   (\<forall>b\<in>set bs. lines_ok b) \<and> (\<forall>b\<in>set (butlast bs). closed_line (last b))"
proof (induction bs)
  case Nil
  then show ?case by simp
next
  case (Cons b bs)
  have ok: "lines_ok (b @ concat bs)" using Cons.prems by simp
  have b: "lines_ok b" using lines_ok_prefix [OF ok] .
  have r: "lines_ok (concat bs)" using lines_ok_suffix [OF ok] .
  have ih: "(\<forall>b\<in>set bs. lines_ok b) \<and> (\<forall>b\<in>set (butlast bs). closed_line (last b))"
    using Cons.IH [OF r] Cons.prems by simp
  show ?case
  proof (cases bs)
    case Nil
    with b show ?thesis by simp
  next
    case (Cons b' bs')
    have "b \<noteq> []" "concat bs \<noteq> []" using Cons.prems Cons by auto
    with lines_ok_mid [OF ok] have "closed_line (last b)" by blast
    with b ih Cons show ?thesis by simp
  qed
qed

lemma tl_filter_subset: "set (tl (filter P xs)) \<subseteq> set (tl xs)"
proof (induction xs)
  case Nil
  show ?case by simp
next
  case (Cons x xs)
  have "set (tl xs) \<subseteq> set xs" by (cases xs) auto
  with Cons show ?case by auto
qed

lemma butlast_filter_subset: "set (butlast (filter P xs)) \<subseteq> set (butlast xs)"
proof -
  have "butlast (filter P xs) = rev (tl (filter P (rev xs)))"
    using butlast_rev [of "rev (filter P xs)"] by (simp add: rev_filter)
  moreover have "butlast xs = rev (tl (rev xs))" using butlast_rev [of "rev xs"] by simp
  ultimately show ?thesis using tl_filter_subset [of P "rev xs"] by simp
qed

lemma lines_ok_concat:
  "\<forall>b\<in>set bs. b \<noteq> [] \<and> lines_ok b \<Longrightarrow>
   \<forall>b\<in>set (butlast bs). closed_line (last b) \<and> last (last b) \<noteq> 13 \<Longrightarrow>
   lines_ok (concat bs)"
proof (induction bs)
  case Nil
  then show ?case by simp
next
  case (Cons b bs)
  show ?case
  proof (cases bs)
    case Nil
    with Cons.prems show ?thesis by simp
  next
    case (Cons b' bs')
    have ih: "lines_ok (concat bs)" using Cons.IH Cons.prems Cons by simp
    have "closed_line (last b) \<and> last (last b) \<noteq> 13" using Cons.prems(2) Cons by simp
    moreover have "lines_ok b" using Cons.prems(1) by simp
    ultimately have "lines_ok (b @ concat bs)" using ih by (intro lines_ok_append) simp_all
    then show ?thesis by simp
  qed
qed

lemma one_file_nonempty: "one_file b \<Longrightarrow> b \<noteq> []"
  by (simp add: one_file_def)

lemma blocks_of_ok: "blocks_ok (blocks_of d)"
proof -
  have ne: "[] \<notin> set (blocks_of d)" using blocks_one_file [of "[]" d] by (auto simp: one_file_def)
  have "lines_ok (concat (blocks_of d))" by (simp add: concat_blocks_of lines_ok_splitlines)
  from blocks_lines [OF this ne] show ?thesis
    using blocks_one_file [of _ d] blocks_heads [of _ d] by (simp add: blocks_ok_def)
qed

lemma blocks_ok_filter: "blocks_ok bs \<Longrightarrow> blocks_ok (filter P bs)"
  using tl_filter_subset [of P bs] butlast_filter_subset [of P bs]
  by (auto simp: blocks_ok_def)

lemma kept_blocks_ok: "blocks_ok (kept_blocks d)"
  unfolding kept_blocks_def by (rule blocks_ok_filter [OF blocks_of_ok])

lemma sealed_facts:
  assumes ok: "blocks_ok bs" and ne: "bs \<noteq> []"
  shows "\<forall>b\<in>set (sealed bs). one_file b \<and> lines_ok b \<and> b \<noteq> []"
    and "\<forall>b\<in>set (butlast (sealed bs)). closed_line (last b) \<and> last (last b) \<noteq> 13"
    and "\<forall>b\<in>set (tl (sealed bs)). startswith (hd b) (py ''diff --git '')"
proof -
  have inner: "one_file (nl b) \<and> lines_ok (nl b) \<and> nl b \<noteq> [] \<and> closed_line (last (nl b))
      \<and> last (last (nl b)) \<noteq> 13
      \<and> startswith (hd (nl b)) (py ''diff --git '') = startswith (hd b) (py ''diff --git '')"
    if "b \<in> set (butlast bs)" for b
  proof -
    have m: "b \<in> set bs" using that by (rule in_set_butlastD)
    have o: "one_file b" and l: "lines_ok b" using ok m by (simp_all add: blocks_ok_def)
    have c: "closed_line (last b)" using ok that by (simp add: blocks_ok_def)
    from nl_lines_ok [OF one_file_nonempty [OF o] l c] nl_one_file [OF o] show ?thesis by simp
  qed
  have lst: "one_file (last bs) \<and> lines_ok (last bs)" using ok ne by (simp add: blocks_ok_def)
  show "\<forall>b\<in>set (sealed bs). one_file b \<and> lines_ok b \<and> b \<noteq> []"
    using inner lst one_file_nonempty by (auto simp: sealed_def)
  show "\<forall>b\<in>set (butlast (sealed bs)). closed_line (last b) \<and> last (last b) \<noteq> 13"
    using inner by (auto simp: sealed_def)
  show "\<forall>b\<in>set (tl (sealed bs)). startswith (hd b) (py ''diff --git '')"
  proof (cases "butlast bs")
    case Nil
    then show ?thesis by (simp add: sealed_def)
  next
    case (Cons x xs)
    then have two: "tl bs \<noteq> []" by (cases bs) auto
    have t: "tl (sealed bs) = map nl (tl (butlast bs)) @ [last bs]"
      using Cons by (simp add: sealed_def)
    have a: "startswith (hd (last bs)) (py ''diff --git '')"
    proof -
      have "last bs = last (tl bs)" using two by (simp add: last_tl)
      then have "last bs \<in> set (tl bs)" using two by (metis last_in_set)
      with ok show ?thesis by (simp add: blocks_ok_def)
    qed
    have b: "startswith (hd (nl b)) (py ''diff --git '')" if "b \<in> set (tl (butlast bs))" for b
    proof -
      have "tl (butlast bs) = butlast (tl bs)" by (simp add: butlast_tl)
      with that have m: "b \<in> set (tl bs)" by (metis in_set_butlastD)
      have "b \<in> set (butlast bs)" using that by (metis list.set_sel(2) Cons list.distinct(1) list.sel(2) tl_Nil)
      from inner [OF this] m ok show ?thesis by (simp add: blocks_ok_def)
    qed
    show ?thesis unfolding t using a b by auto
  qed
qed

lemma blocks_of_sealed:
  assumes ok: "blocks_ok bs" and ne: "bs \<noteq> []"
  shows "blocks_of (concat (concat (sealed bs))) = sealed bs"
proof -
  note f = sealed_facts [OF ok ne]
  have "lines_ok (concat (sealed bs))" using f(1) f(2) by (intro lines_ok_concat) simp_all
  then have "splitlines True (concat (concat (sealed bs))) = concat (sealed bs)" by (rule resplit)
  moreover have "group_loop [] [] (concat (sealed bs)) = sealed bs"
    using f(1) f(3) by (intro regroup) simp_all
  ultimately show ?thesis by (simp add: blocks_of_def)
qed

lemma extract_block: "lines_ok b \<Longrightarrow> extract_file_path (concat b) = extract_loop (map chomp b)"
  by (simp add: extract_file_path_def resplit_chomp)

lemma extract_nl:
  assumes "one_file b" and "lines_ok b" and "closed_line (last b)"
  shows "extract_file_path (concat (nl b)) = extract_file_path (concat b)"
proof -
  have ne: "b \<noteq> []" using assms(1) by (rule one_file_nonempty)
  have "lines_ok (nl b)" using nl_lines_ok [OF ne assms(2) assms(3)] by simp
  then show ?thesis using nl_extract [OF ne assms(3)] assms(2) by (simp add: extract_block)
qed

lemma extract_sealed:
  assumes ok: "blocks_ok bs" and ne: "bs \<noteq> []"
  shows "map (\<lambda>b. extract_file_path (concat b)) (sealed bs) = map (\<lambda>b. extract_file_path (concat b)) bs"
proof -
  have "extract_file_path (concat (nl b)) = extract_file_path (concat b)"
    if "b \<in> set (butlast bs)" for b
    using ok that in_set_butlastD [OF that] by (intro extract_nl) (simp_all add: blocks_ok_def)
  then have "map (\<lambda>b. extract_file_path (concat b)) (sealed bs)
      = map (\<lambda>b. extract_file_path (concat b)) (butlast bs @ [last bs])"
    by (simp add: sealed_def)
  then show ?thesis using ne by simp
qed

lemma kept_split: 
  "filter (\<lambda>c. reviewable_path (extract_file_path c)) (split_diff_by_file d) = map concat (kept_blocks d)"
  by (simp add: split_blocks kept_blocks_def filter_map comp_def)

lemma filter_as_sealed:
  assumes "kept_blocks d \<noteq> []"
  shows "filter_script_changes d = concat (concat (sealed (kept_blocks d)))"
proof -
  have "[] \<notin> set (kept_blocks d)"
    using kept_blocks_ok [of d] by (auto simp: blocks_ok_def one_file_def)
  from join_sealed [OF assms this] show ?thesis
    by (simp add: filter_script_changes_def kept_split)
qed

lemma blocks_of_filtered:
  assumes "kept_blocks d \<noteq> []"
  shows "blocks_of (filter_script_changes d) = sealed (kept_blocks d)"
  unfolding filter_as_sealed [OF assms] by (rule blocks_of_sealed [OF kept_blocks_ok assms])

lemma kept_blocks_filtered:
  assumes ne: "kept_blocks d \<noteq> []"
  shows "kept_blocks (filter_script_changes d) = sealed (kept_blocks d)"
proof -
  have all: "\<forall>b\<in>set (kept_blocks d). reviewable_path (extract_file_path (concat b))"
    by (simp add: kept_blocks_def)
  have "map (\<lambda>b. reviewable_path (extract_file_path (concat b))) (sealed (kept_blocks d))
      = map (\<lambda>b. reviewable_path (extract_file_path (concat b))) (kept_blocks d)"
    using arg_cong [OF extract_sealed [OF kept_blocks_ok ne], of "map reviewable_path"]
    by (simp add: comp_def)
  then have "set (map (\<lambda>b. reviewable_path (extract_file_path (concat b))) (sealed (kept_blocks d)))
      \<subseteq> {True}" using all by auto
  then have "\<forall>b\<in>set (sealed (kept_blocks d)). reviewable_path (extract_file_path (concat b))"
    by auto
  then have "filter (\<lambda>b. reviewable_path (extract_file_path (concat b))) (sealed (kept_blocks d))
      = sealed (kept_blocks d)" by (simp add: filter_id_conv)
  then show ?thesis
    using blocks_of_filtered [OF ne] by (simp add: kept_blocks_def [of "filter_script_changes d"])
qed

lemma concat_sealed:
  assumes "[] \<notin> set bs" and "bs \<noteq> []"
  shows "map concat (sealed bs) = map (\<lambda>c. c @ [10]) (butlast (map concat bs)) @ [last (map concat bs)]"
proof -
  have "concat (nl b) = concat b @ [10]" if "b \<in> set (butlast bs)" for b
    using assms(1) in_set_butlastD [OF that] by (intro nl_concat) auto
  then show ?thesis using assms(2) by (simp add: sealed_def map_butlast [symmetric] last_map)
qed

text \<open>The reviewable segments of the filtered diff are those of the diff, each but the
  last with one more newline at its end.\<close>

lemma kept_of_filtered:
  assumes "filter (\<lambda>c. reviewable_path (extract_file_path c)) (split_diff_by_file d) = kept"
    and "kept \<noteq> []"
  shows "filter (\<lambda>c. reviewable_path (extract_file_path c)) (split_diff_by_file (filter_script_changes d))
     = map (\<lambda>c. c @ [10]) (butlast kept) @ [last kept]"
    and "split_diff_by_file (filter_script_changes d) = map (\<lambda>c. c @ [10]) (butlast kept) @ [last kept]"
proof -
  have k: "kept = map concat (kept_blocks d)" using assms(1) by (simp add: kept_split)
  then have ne: "kept_blocks d \<noteq> []" using assms(2) by auto
  have n: "[] \<notin> set (kept_blocks d)"
    using kept_blocks_ok [of d] by (auto simp: blocks_ok_def one_file_def)
  show "filter (\<lambda>c. reviewable_path (extract_file_path c)) (split_diff_by_file (filter_script_changes d))
     = map (\<lambda>c. c @ [10]) (butlast kept) @ [last kept]"
    unfolding kept_split kept_blocks_filtered [OF ne] concat_sealed [OF n ne] k ..
  show "split_diff_by_file (filter_script_changes d) = map (\<lambda>c. c @ [10]) (butlast kept) @ [last kept]"
    unfolding split_blocks blocks_of_filtered [OF ne] concat_sealed [OF n ne] k ..
qed

lemma length_join:
  "length (join sep cs) = sum_list (map length cs) + length sep * (length cs - 1)"
  by (induction sep cs rule: join.induct) simp_all

lemma filter_twice_length:
  "length (filter_script_changes (filter_script_changes d))
     = length (filter_script_changes d)
       + (length (filter (\<lambda>c. reviewable_path (extract_file_path c)) (split_diff_by_file d)) - 1)"
proof (cases "filter (\<lambda>c. reviewable_path (extract_file_path c)) (split_diff_by_file d) = []")
  case True
  then have "filter_script_changes d = []" by (simp add: filter_script_changes_def)
  with True show ?thesis by (simp add: filter_none)
next
  case False
  define kept where "kept = filter (\<lambda>c. reviewable_path (extract_file_path c)) (split_diff_by_file d)"
  have ne: "kept \<noteq> []" using False by (simp add: kept_def)
  have kb: "kept = butlast kept @ [last kept]" using ne by simp
  have s: "sum_list (map length kept) = sum_list (map length (butlast kept)) + length (last kept)"
    using arg_cong [OF kb, of "\<lambda>xs. sum_list (map length xs)"] by simp
  have l: "length kept = length (butlast kept) + 1" using ne by simp
  have "sum_list (map length (map (\<lambda>c. c @ [10]) xs)) = sum_list (map length xs) + length xs"
    for xs :: "pystr list" by (induction xs) simp_all
  then have "length (join [10] (map (\<lambda>c. c @ [10]) (butlast kept) @ [last kept]))
      = length (join [10] kept) + (length kept - 1)"
    using s l by (simp add: length_join)
  then show ?thesis
    using kept_of_filtered(1) [OF kept_def [symmetric] ne]
    by (simp add: filter_script_changes_def kept_def [symmetric])
qed


text \<open>
  C3, amended. A second application of the filter makes the filtered diff longer by one
  character for every reviewable segment after the first, so the filter applied twice
  gives what the filter applied once gives exactly on the diffs with at most one
  reviewable segment.
\<close>

theorem filter_script_changes_idempotent_iff:
  "filter_script_changes (filter_script_changes d) = filter_script_changes d
   \<longleftrightarrow> length (filter (\<lambda>c. reviewable_path (extract_file_path c)) (split_diff_by_file d)) \<le> 1"
proof
  assume "filter_script_changes (filter_script_changes d) = filter_script_changes d"
  then show "length (filter (\<lambda>c. reviewable_path (extract_file_path c)) (split_diff_by_file d)) \<le> 1"
    using filter_twice_length [of d] by simp
next
  assume a: "length (filter (\<lambda>c. reviewable_path (extract_file_path c)) (split_diff_by_file d)) \<le> 1"
  show "filter_script_changes (filter_script_changes d) = filter_script_changes d"
  proof (cases "filter (\<lambda>c. reviewable_path (extract_file_path c)) (split_diff_by_file d)")
    case Nil
    then have "filter_script_changes d = []" by (simp add: filter_script_changes_def)
    then show ?thesis by (simp add: filter_none)
  next
    case (Cons c cs)
    with a have "cs = []" by simp
    with Cons filter_single [of d c] show ?thesis by simp
  qed
qed

text \<open>On a diff of a Lua file and a JSON file: one reviewable segment, kept as it is.\<close>

theorem filter_script_changes_idempotent_iff_witness:
  "length (filter (\<lambda>c. reviewable_path (extract_file_path c))
      (split_diff_by_file (lua_chunk @ json_chunk))) \<le> 1
   \<and> filter_script_changes (lua_chunk @ json_chunk) = lua_chunk
   \<and> filter_script_changes (filter_script_changes (lua_chunk @ json_chunk)) = lua_chunk"
proof -
  have k: "length (filter (\<lambda>c. reviewable_path (extract_file_path c))
      (split_diff_by_file (lua_chunk @ json_chunk))) \<le> 1"
    by (simp add: kept_lua_json)
  have f: "filter_script_changes (lua_chunk @ json_chunk) = lua_chunk"
    by (simp add: filter_script_changes_def kept_lua_json)
  from filter_script_changes_idempotent_iff [of "lua_chunk @ json_chunk"] k f
  show ?thesis by simp
qed


section \<open>Auto-resolve\<close>

lemma auto_resolve_loop_issues:
  "issues (fst (auto_resolve_loop now changed db ids todo)) =
     map (\<lambda>r. if issue_id r \<in> issue_id ` {t \<in> set todo. file_path t \<in> set changed}
               then auto_resolved now r else r) (issues db)"
proof (induction todo arbitrary: db ids)
  case Nil
  then show ?case by (simp add: map_idI)
next
  case (Cons t todo)
  show ?case
  proof (cases "file_path t \<in> set changed")
    case True
    let ?db = "resolve_issue now db (issue_id t) (py ''auto'') (py ''file modified'')"
    have "issues (fst (auto_resolve_loop now changed db ids (t # todo))) =
        issues (fst (auto_resolve_loop now changed ?db (ids @ [issue_id t]) todo))"
      using True by simp
    also have "\<dots> = map (\<lambda>r. if issue_id r \<in> issue_id ` {t \<in> set todo. file_path t \<in> set changed}
               then auto_resolved now r else r) (issues ?db)"
      by (rule Cons.IH)
    also have "\<dots> = map (\<lambda>r. if issue_id r \<in> issue_id ` {u \<in> set (t # todo). file_path u \<in> set changed}
               then auto_resolved now r else r) (issues db)"
      using True by (auto simp: resolve_issue_def auto_resolved_def)
    finally show ?thesis .
  next
    case False
    have "{u \<in> set (t # todo). file_path u \<in> set changed} = {u \<in> set todo. file_path u \<in> set changed}"
      using False by auto
    with False Cons.IH [of db ids] show ?thesis by simp
  qed
qed

lemma auto_resolve_loop_ids:
  "snd (auto_resolve_loop now changed db ids todo) =
     ids @ map issue_id (filter (\<lambda>t. file_path t \<in> set changed) todo)"
  by (induction todo arbitrary: db ids) auto

lemma auto_resolve_loop_games:
  "games (fst (auto_resolve_loop now changed db ids todo)) = games db"
  by (induction todo arbitrary: db ids) (auto simp: resolve_issue_def)

text \<open>
  C7. In a store whose findings have distinct ids (the primary key), \<open>auto_resolve\<close>
  turns exactly the findings of the workspace that were unresolved and whose file is
  among the changed files into resolved ones, by \<^verbatim>\<open>auto\<close> with reason
  \<^verbatim>\<open>file modified\<close>, and leaves every other finding, and the workspaces, as they
  were; it returns the ids of the findings it resolved. The function works on the store
  alone: no oracle is among its arguments.
\<close>

theorem auto_resolve_file_modified:
  assumes "distinct (map issue_id (issues db))"
  shows "issues (fst (auto_resolve now db gid changed)) =
           map (\<lambda>r. if game_id r = gid \<and> \<not> resolved r \<and> file_path r \<in> set changed
                     then r\<lparr>resolved := True, resolved_by := Some (py ''auto''),
                            resolved_reason := Some (py ''file modified''),
                            resolved_at := Some now\<rparr>
                     else r) (issues db)
       \<and> snd (auto_resolve now db gid changed) =
           map issue_id (filter (\<lambda>r. game_id r = gid \<and> \<not> resolved r \<and> file_path r \<in> set changed)
             (issues db))
       \<and> games (fst (auto_resolve now db gid changed)) = games db"
proof (intro conjI)
  have inj: "inj_on issue_id (set (issues db))"
    using assms by (simp add: distinct_map)
  have key: "\<And>r. r \<in> set (issues db) \<Longrightarrow>
      (issue_id r \<in> issue_id ` {t \<in> set (get_unresolved_issues db gid). file_path t \<in> set changed})
        = (game_id r = gid \<and> \<not> resolved r \<and> file_path r \<in> set changed)"
  proof
    fix r assume r: "r \<in> set (issues db)"
    assume "issue_id r \<in> issue_id ` {t \<in> set (get_unresolved_issues db gid). file_path t \<in> set changed}"
    then obtain t where t: "t \<in> set (issues db)" "game_id t = gid" "\<not> resolved t"
        "file_path t \<in> set changed" "issue_id r = issue_id t"
      by (auto simp: get_unresolved_issues_def)
    with inj r have "r = t" by (auto dest: inj_onD)
    with t show "game_id r = gid \<and> \<not> resolved r \<and> file_path r \<in> set changed" by simp
  next
    fix r assume "r \<in> set (issues db)" "game_id r = gid \<and> \<not> resolved r \<and> file_path r \<in> set changed"
    then show "issue_id r \<in> issue_id ` {t \<in> set (get_unresolved_issues db gid). file_path t \<in> set changed}"
      by (auto simp: get_unresolved_issues_def)
  qed
  show "issues (fst (auto_resolve now db gid changed)) =
           map (\<lambda>r. if game_id r = gid \<and> \<not> resolved r \<and> file_path r \<in> set changed
                     then r\<lparr>resolved := True, resolved_by := Some (py ''auto''),
                            resolved_reason := Some (py ''file modified''),
                            resolved_at := Some now\<rparr>
                     else r) (issues db)"
    unfolding auto_resolve_def auto_resolve_loop_issues
    by (rule map_cong) (simp_all add: key auto_resolved_def)
  show "snd (auto_resolve now db gid changed) =
           map issue_id (filter (\<lambda>r. game_id r = gid \<and> \<not> resolved r \<and> file_path r \<in> set changed)
             (issues db))"
    unfolding auto_resolve_def auto_resolve_loop_ids get_unresolved_issues_def
    by (simp add: conj_commute conj_left_commute cong: conj_cong)
  show "games (fst (auto_resolve now db gid changed)) = games db"
    by (simp add: auto_resolve_def auto_resolve_loop_games)
qed

text \<open>On the example store with \<^verbatim>\<open>a.luau\<close> changed: finding 1 is resolved, finding 2 stays.\<close>

theorem auto_resolve_file_modified_witness:
  "distinct (map issue_id (issues findings_db))
   \<and> map resolved (issues (fst (auto_resolve (py ''2025-01-02'') findings_db 1 [py ''a.luau'']))) =
       [True, False]
   \<and> map resolved_reason (issues (fst (auto_resolve (py ''2025-01-02'') findings_db 1 [py ''a.luau'']))) =
       [Some (py ''file modified''), None]
   \<and> map resolved_by (issues (fst (auto_resolve (py ''2025-01-02'') findings_db 1 [py ''a.luau'']))) =
       [Some (py ''auto''), None]
   \<and> snd (auto_resolve (py ''2025-01-02'') findings_db 1 [py ''a.luau'']) = [1]"
proof -
  have d: "distinct (map issue_id (issues findings_db))"
    by (simp add: findings_db_def open_issue_def)
  show ?thesis
    using d auto_resolve_file_modified [OF d, of "py ''2025-01-02''" 1 "[py ''a.luau'']"]
    by (simp add: findings_db_def open_issue_def py_def)
qed

section \<open>The review of a diff\<close>

lemma filter_json_chunk: "filter_script_changes json_chunk = []"
  by (simp add: review_eval)

lemma join_Nil_iff: "[] \<notin> set xs \<Longrightarrow> join sep xs = [] \<longleftrightarrow> xs = []"
  by (induction sep xs rule: join.induct) auto

text \<open>
  C6. When no segment of the diff is reviewable, \<open>review_diff\<close> returns no findings and
  the list of its oracle calls is empty.
\<close>

theorem review_diff_nothing_reviewable:
  "(\<forall>c\<in>set (split_diff_by_file d). \<not> reviewable_path (extract_file_path c)) \<longrightarrow>
     review_diff lib orc d existing = (Inr [], [])"
proof
  assume "\<forall>c\<in>set (split_diff_by_file d). \<not> reviewable_path (extract_file_path c)"
  then have "filter (\<lambda>c. reviewable_path (extract_file_path c)) (split_diff_by_file d) = []"
    by (simp add: filter_empty_conv)
  then have "filter_script_changes d = []" by (simp add: filter_script_changes_def)
  then show "review_diff lib orc d existing = (Inr [], [])" by (simp add: review_diff_def)
qed

lemma split_json: "split_diff_by_file json_chunk = [json_chunk]"
  by (simp add: review_eval)

lemma json_not_reviewable: "\<not> reviewable_path (extract_file_path json_chunk)"
  by (simp add: review_eval)

text \<open>On the diff of a JSON file alone, whatever the oracle would have answered.\<close>

theorem review_diff_nothing_reviewable_witness:
  "split_diff_by_file json_chunk = [json_chunk]
   \<and> extract_file_path json_chunk = py ''default.project.json''
   \<and> review_diff ascii_lib twice_oracle json_chunk (issues findings_db) = (Inr [], [])"
proof -
  have p: "extract_file_path json_chunk = py ''default.project.json''"
    by (simp add: review_eval)
  have "\<forall>c\<in>set (split_diff_by_file json_chunk). \<not> reviewable_path (extract_file_path c)"
    by (simp add: split_json json_not_reviewable)
  with review_diff_nothing_reviewable [of json_chunk ascii_lib twice_oracle "issues findings_db"]
  show ?thesis using split_json p by blast
qed


section \<open>The parser of the oracle's answer\<close>

lemmas json_eval =
  json_loads_def skip_ws_def json_ws_def py_def startswith_def match_number_def
  match_integer_def match_frac_def match_exp_def decode_error_def py_dict_def dict_set_def
  is_digit_def backslash_def digits_value_def MAX_STR_DIGITS_def

lemmas parse_eval =
  parse_issues_def unfenced_def load_findings_def strip_def is_space_def make_issue_def
  dict_get_def py_int_def py_str_def int_of_float_def caught_by_def exc_class_of_def
  search_brackets_def

text \<open>
  C4, where the code fails it. An element whose \<^verbatim>\<open>line_start\<close> is the float infinity
  (which \<^verbatim>\<open>json.loads\<close> reads from \<^verbatim>\<open>Infinity\<close>) makes \<^verbatim>\<open>int\<close> raise \<^verbatim>\<open>OverflowError\<close>,
  which the \<^verbatim>\<open>except (ValueError, TypeError)\<close> of the loop does not catch:
  \<open>parse_issues\<close> raises, and the finding of the element before is lost with it.
\<close>

theorem parse_issues_raises_overflow:
  \<open>parse_issues lib (py ''[{"title":"ok"},{"line_start": Infinity}]'') =
     Inl (PyExc OverflowError (py ''cannot convert float infinity to integer''))\<close>
  by (simp add: parse_eval json_eval)

lemma parse_twice:
  \<open>parse_issues lib (py ''[{"file":"a.lua","title":"T"},{"file":"a.lua","title":"T"}]'') =
     Inr [\<lparr>file = py ''a.lua'', line_start = 0, line_end = 0, severity = py ''Medium'',
           title = py ''T'', explanation = [], suggestion = []\<rparr>,
          \<lparr>file = py ''a.lua'', line_start = 0, line_end = 0, severity = py ''Medium'',
           title = py ''T'', explanation = [], suggestion = []\<rparr>]\<close>
  by (simp add: parse_eval json_eval)


lemma parse_luau:
  \<open>parse_issues lib (py ''[{"file":"b.luau","title":"T"}]'') =
     Inr [\<lparr>file = py ''b.luau'', line_start = 0, line_end = 0, severity = py ''Medium'',
           title = py ''T'', explanation = [], suggestion = []\<rparr>]\<close>
  by (simp add: parse_eval json_eval)


section \<open>The review of a large diff\<close>

lemma review_one_failed: "orc i (user_content ctx fd) = Inl e \<Longrightarrow> review_one lib orc ctx i fd = []"
  by (simp add: review_one_def)

lemma review_one_parsed:
  "orc i (user_content ctx fd) = Inr text \<Longrightarrow> parse_issues lib text = Inr found \<Longrightarrow>
   review_one lib orc ctx i fd = found"
  by (simp add: review_one_def)

lemma review_diff_chunked_eq:
  assumes "filter_script_changes d \<noteq> []" and "150000 < length (filter_script_changes d) div 4"
  shows "review_diff lib orc d existing =
              (Inr (concat (map (\<lambda>(i, fd). review_one lib orc (format_existing_issues existing) i fd)
                 (zip [0..<length (filter (\<lambda>fd. reviewable_path (extract_file_path fd))
                                    (split_diff_by_file (filter_script_changes d)))]
                      (filter (\<lambda>fd. reviewable_path (extract_file_path fd))
                         (split_diff_by_file (filter_script_changes d)))))),
               map (user_content (format_existing_issues existing))
                 (filter (\<lambda>fd. reviewable_path (extract_file_path fd))
                    (split_diff_by_file (filter_script_changes d))))"
  using assms
  by (simp add: review_diff_def review_chunked_def Let_def TOKEN_ESTIMATE_DIVISOR_def
        MAX_SINGLE_PASS_TOKENS_def)

lemma review_diff_single_calls:
  assumes "filter_script_changes d \<noteq> []" and "length (filter_script_changes d) div 4 \<le> 150000"
  shows "snd (review_diff lib orc d existing) =
              [user_content (format_existing_issues existing) (filter_script_changes d)]"
  using assms
  by (simp add: review_diff_def Let_def TOKEN_ESTIMATE_DIVISOR_def MAX_SINGLE_PASS_TOKENS_def
        split: sum.splits)

lemma review_one_unparsed:
  "orc i (user_content ctx fd) = Inr text \<Longrightarrow> parse_issues lib text = Inl e \<Longrightarrow>
   review_one lib orc ctx i fd = []"
  by (simp add: review_one_def)

lemma filter_lua_chunk: "filter_script_changes lua_chunk = lua_chunk"
  by (simp add: review_eval)

lemma lines_ok_nl_lines:
  "\<forall>l\<in>set ls. \<not> list_ex is_linebreak l \<Longrightarrow> lines_ok (map (\<lambda>l. l @ [10]) ls)"
proof (induction ls)
  case Nil
  show ?case by simp
next
  case (Cons l ls)
  have nb: "\<not> list_ex is_linebreak l" using Cons.prems by simp
  have "is_linebreak 10" by (simp add: is_linebreak_def)
  with nb have "closed_line (l @ [10])" by (rule closed_lineI1)
  with Cons show ?case by (simp add: lines_ok_Cons)
qed

lemma chomp_nl_lines:
  "\<forall>l\<in>set ls. \<not> list_ex is_linebreak l \<Longrightarrow> map chomp (map (\<lambda>l. l @ [10]) ls) = ls"
proof (induction ls)
  case Nil
  show ?case by simp
next
  case (Cons l ls)
  have nb: "\<not> list_ex is_linebreak l" using Cons.prems by simp
  have "chomp (l @ [10]) = l" by (rule chomp_closed [OF nb]) (simp add: is_linebreak_def)
  with Cons show ?case by simp
qed

lemma extract_nl_lines:
  assumes "\<forall>l\<in>set ls. \<not> list_ex is_linebreak l"
  shows "extract_file_path (concat (map (\<lambda>l. l @ [10]) ls)) = extract_loop ls"
  using extract_block [OF lines_ok_nl_lines [OF assms]] by (simp only: chomp_nl_lines [OF assms])

lemma filler_plain: "\<not> list_ex is_linebreak (43 # replicate n 120)"
  by (simp add: list_ex_iff is_linebreak_def)

lemma long_line_plain: "\<not> list_ex is_linebreak long_line"
  unfolding long_line_def by (rule filler_plain)

lemma filler_head: "\<not> startswith ((43 # replicate n 120) @ [10]) (py ''diff --git '')"
  by (simp add: startswith_def py_def)

lemma long_line_head: "\<not> startswith (long_line @ [10]) (py ''diff --git '')"
  unfolding long_line_def by (rule filler_head)

lemma length_long_line: "length long_line = 600001"
  unfolding long_line_def by (simp only: length_Cons length_replicate)

lemma lua_chunk_lines: "lua_chunk = concat (map (\<lambda>l. l @ [10]) lua_lines)"
  by (simp add: lua_chunk_def unlines_def lua_lines_def)

lemma luau_chunk_lines: "luau_chunk = concat (map (\<lambda>l. l @ [10]) luau_lines)"
  by (simp add: luau_chunk_def unlines_def luau_lines_def)

lemma big_chunk_lines: "big_chunk = concat (map (\<lambda>l. l @ [10]) (lua_lines @ [long_line]))"
  by (simp add: big_chunk_def lua_chunk_lines)

lemma lua_lines_plain: "\<forall>l\<in>set lua_lines. \<not> list_ex is_linebreak l"
  by (simp add: lua_lines_def py_def is_linebreak_def)

lemma luau_lines_plain: "\<forall>l\<in>set luau_lines. \<not> list_ex is_linebreak l"
  by (simp add: luau_lines_def py_def is_linebreak_def)

lemma big_lines_ok:
  "lines_ok (map (\<lambda>l. l @ [10]) (lua_lines @ [long_line]) @ map (\<lambda>l. l @ [10]) luau_lines)"
proof -
  have "\<forall>l\<in>set ((lua_lines @ [long_line]) @ luau_lines). \<not> list_ex is_linebreak l"
    using lua_lines_plain luau_lines_plain long_line_plain by auto
  from lines_ok_nl_lines [OF this] show ?thesis by simp
qed

lemma big_one_file: "one_file (map (\<lambda>l. l @ [10]) (lua_lines @ [long_line]))"
  using long_line_head by (simp add: one_file_def lua_lines_def startswith_def py_def)

lemma luau_one_file:
  "one_file (map (\<lambda>l. l @ [10]) luau_lines)
   \<and> startswith (hd (map (\<lambda>l. l @ [10]) luau_lines)) (py ''diff --git '')"
  by (simp add: one_file_def luau_lines_def startswith_def py_def)

lemma blocks_big:
  "blocks_of (big_chunk @ luau_chunk) =
     [map (\<lambda>l. l @ [10]) (lua_lines @ [long_line]), map (\<lambda>l. l @ [10]) luau_lines]"
proof -
  have "splitlines True (big_chunk @ luau_chunk) =
      concat [map (\<lambda>l. l @ [10]) (lua_lines @ [long_line]), map (\<lambda>l. l @ [10]) luau_lines]"
    using resplit [OF big_lines_ok] unfolding big_chunk_lines luau_chunk_lines by simp
  moreover have "group_loop [] []
      (concat [map (\<lambda>l. l @ [10]) (lua_lines @ [long_line]), map (\<lambda>l. l @ [10]) luau_lines])
      = [map (\<lambda>l. l @ [10]) (lua_lines @ [long_line]), map (\<lambda>l. l @ [10]) luau_lines]"
    using big_one_file luau_one_file by (intro regroup) simp_all
  ultimately show ?thesis by (simp only: blocks_of_def)
qed

lemma split_big: "split_diff_by_file (big_chunk @ luau_chunk) = [big_chunk, luau_chunk]"
  unfolding split_blocks blocks_big by (simp only: big_chunk_lines luau_chunk_lines list.map)

lemma big_path: "extract_file_path big_chunk = py ''src/a.lua''"
proof -
  have "\<forall>l\<in>set (lua_lines @ [long_line]). \<not> list_ex is_linebreak l"
    using lua_lines_plain long_line_plain by auto
  from extract_nl_lines [OF this] show ?thesis
    unfolding big_chunk_lines
    by (simp add: lua_lines_def startswith_def py_def strip_def is_space_def)
qed

lemma luau_path: "extract_file_path luau_chunk = py ''b.luau''"
  by (simp add: review_eval)

lemma kept_big:
  "filter (\<lambda>c. reviewable_path (extract_file_path c)) (split_diff_by_file (big_chunk @ luau_chunk))
     = [big_chunk, luau_chunk]"
  unfolding split_big
  by (simp add: big_path luau_path)
     (simp add: reviewable_path_def REVIEWABLE_EXTENSIONS_def endswith_def py_def)

lemma filter_big: "filter_script_changes (big_chunk @ luau_chunk) = big_chunk @ [10] @ luau_chunk"
  unfolding filter_script_changes_def kept_big by simp

lemma big_estimate: "150000 < length (filter_script_changes (big_chunk @ luau_chunk)) div 4"
proof -
  have "1 \<le> length lua_chunk" by (simp add: lua_chunk_def unlines_def py_def)
  moreover have "length (big_chunk @ [10] @ luau_chunk) = length lua_chunk + 600003 + length luau_chunk"
    by (simp add: big_chunk_def length_long_line)
  ultimately have "600004 \<le> length (big_chunk @ [10] @ luau_chunk)" by linarith
  then show ?thesis unfolding filter_big by linarith
qed

lemma kept_filtered_big:
  "filter (\<lambda>c. reviewable_path (extract_file_path c))
     (split_diff_by_file (filter_script_changes (big_chunk @ luau_chunk)))
     = [big_chunk @ [10], luau_chunk]"
  using kept_of_filtered(1) [OF kept_big] by simp

lemma review_one_flaky_first: "review_one lib flaky_oracle [] 0 (big_chunk @ [10]) = []"
  by (simp add: review_one_def flaky_oracle_def)

lemma review_one_flaky_second:
  "review_one lib flaky_oracle [] (Suc 0) luau_chunk =
     [\<lparr>file = py ''b.luau'', line_start = 0, line_end = 0, severity = py ''Medium'',
        title = py ''T'', explanation = [], suggestion = []\<rparr>]"
  by (simp add: review_one_def flaky_oracle_def parse_luau)

text \<open>
  C5. For a diff with a reviewable portion (the filtered diff is not empty), with \<open>kept\<close>
  its reviewable segments: when the estimate, the length of the filtered diff divided by
  4, is above 150000, the calls of \<open>review_diff\<close> are one per reviewable segment, in
  order, each with the segment as the filtered diff has it (a newline more at the end of
  every segment but the last), and the result is the concatenation of what the segments
  give, where a segment whose call fails, or whose answer cannot be parsed, gives no
  findings and a segment whose call answers gives the findings parsed from the answer;
  when the estimate is at most 150000 there is exactly one call, with the whole filtered
  diff.
\<close>

theorem review_diff_fan_out:
  assumes "filter_script_changes d \<noteq> []"
    and "kept = filter (\<lambda>c. reviewable_path (extract_file_path c)) (split_diff_by_file d)"
    and "sent = map (\<lambda>c. c @ [10]) (butlast kept) @ [last kept]"
    and "ctx = format_existing_issues existing"
  shows "(150000 < length (filter_script_changes d) div 4 \<longrightarrow>
            review_diff lib orc d existing =
              (Inr (concat (map (\<lambda>(i, fd). review_one lib orc ctx i fd)
                              (zip [0..<length kept] sent))),
               map (user_content ctx) sent))
       \<and> length sent = length kept
       \<and> (\<forall>i fd e. orc i (user_content ctx fd) = Inl e \<longrightarrow> review_one lib orc ctx i fd = [])
       \<and> (\<forall>i fd text e. orc i (user_content ctx fd) = Inr text \<longrightarrow>
             parse_issues lib text = Inl e \<longrightarrow> review_one lib orc ctx i fd = [])
       \<and> (\<forall>i fd text found. orc i (user_content ctx fd) = Inr text \<longrightarrow>
             parse_issues lib text = Inr found \<longrightarrow> review_one lib orc ctx i fd = found)
       \<and> (length (filter_script_changes d) div 4 \<le> 150000 \<longrightarrow>
            snd (review_diff lib orc d existing) = [user_content ctx (filter_script_changes d)])"
proof -
  have ne: "kept \<noteq> []" using assms(1) assms(2) by (auto simp: filter_script_changes_def)
  have segs: "filter (\<lambda>c. reviewable_path (extract_file_path c))
      (split_diff_by_file (filter_script_changes d)) = sent"
    using kept_of_filtered(1) [OF assms(2) [symmetric] ne] assms(3) by simp
  have len: "length sent = length kept" using ne assms(3) by simp
  have big: "review_diff lib orc d existing =
      (Inr (concat (map (\<lambda>(i, fd). review_one lib orc ctx i fd) (zip [0..<length kept] sent))),
       map (user_content ctx) sent)"
    if "150000 < length (filter_script_changes d) div 4"
    using review_diff_chunked_eq [OF assms(1) that, of lib orc existing]
    unfolding segs len assms(4) [symmetric] .
  have small: "snd (review_diff lib orc d existing) = [user_content ctx (filter_script_changes d)]"
    if "length (filter_script_changes d) div 4 \<le> 150000"
    using review_diff_single_calls [OF assms(1) that, of lib orc existing]
    unfolding assms(4) [symmetric] .
  show ?thesis
    using big small len review_one_failed [of orc _ ctx _ _ lib]
      review_one_unparsed [of orc _ ctx _ _ lib] review_one_parsed [of orc _ ctx _ _ lib]
    by blast
qed

text \<open>
  On a diff of two reviewable files whose first segment alone is above the limit, with an
  oracle whose first call fails: two calls, and the findings of the second file are the
  result. And on the diff of one small Lua file: one call, with the whole filtered diff.
\<close>

theorem review_diff_fan_out_witness:
  "filter_script_changes (big_chunk @ luau_chunk) \<noteq> []
   \<and> filter (\<lambda>c. reviewable_path (extract_file_path c))
        (split_diff_by_file (big_chunk @ luau_chunk)) = [big_chunk, luau_chunk]
   \<and> 150000 < length (filter_script_changes (big_chunk @ luau_chunk)) div 4
   \<and> flaky_oracle 0 (user_content [] (big_chunk @ [10])) =
        Inl (PyExc APIError (py ''Connection error.''))
   \<and> review_diff ascii_lib flaky_oracle (big_chunk @ luau_chunk) [] =
       (Inr [\<lparr>file = py ''b.luau'', line_start = 0, line_end = 0, severity = py ''Medium'',
              title = py ''T'', explanation = [], suggestion = []\<rparr>],
        [py ''Review this diff:'' @ [10, 10] @ big_chunk @ [10],
         py ''Review this diff:'' @ [10, 10] @ luau_chunk])
   \<and> filter_script_changes lua_chunk \<noteq> []
   \<and> length (filter_script_changes lua_chunk) div 4 \<le> 150000
   \<and> snd (review_diff ascii_lib twice_oracle lua_chunk []) =
       [py ''Review this diff:'' @ [10, 10] @ lua_chunk]"
proof -
  have bn: "filter_script_changes (big_chunk @ luau_chunk) \<noteq> []" using big_estimate by auto
  have fl: "flaky_oracle 0 (user_content [] (big_chunk @ [10])) =
      Inl (PyExc APIError (py ''Connection error.''))"
    by (simp add: flaky_oracle_def)
  from review_diff_fan_out [OF bn kept_big [symmetric] refl refl, of ascii_lib flaky_oracle]
    big_estimate
  have "review_diff ascii_lib flaky_oracle (big_chunk @ luau_chunk) [] =
      (Inr (concat (map (\<lambda>(i, fd). review_one ascii_lib flaky_oracle (format_existing_issues []) i fd)
          (zip [0..<length [big_chunk, luau_chunk]]
             (map (\<lambda>c. c @ [10]) (butlast [big_chunk, luau_chunk]) @ [last [big_chunk, luau_chunk]])))),
       map (user_content (format_existing_issues []))
         (map (\<lambda>c. c @ [10]) (butlast [big_chunk, luau_chunk]) @ [last [big_chunk, luau_chunk]]))"
    by blast
  then have b: "review_diff ascii_lib flaky_oracle (big_chunk @ luau_chunk) [] =
       (Inr [\<lparr>file = py ''b.luau'', line_start = 0, line_end = 0, severity = py ''Medium'',
              title = py ''T'', explanation = [], suggestion = []\<rparr>],
        [py ''Review this diff:'' @ [10, 10] @ big_chunk @ [10],
         py ''Review this diff:'' @ [10, 10] @ luau_chunk])"
    by (simp add: format_existing_issues_def user_content_def review_one_flaky_first
        review_one_flaky_second upt_rec [of 0])
  have n: "filter_script_changes lua_chunk \<noteq> []"
    unfolding filter_lua_chunk by (simp add: lua_chunk_def unlines_def py_def)
  have s: "length (filter_script_changes lua_chunk) div 4 \<le> 150000"
    unfolding filter_lua_chunk by (simp add: lua_chunk_def unlines_def py_def)
  from review_diff_fan_out [OF n refl refl refl, of ascii_lib twice_oracle "[]"] s
  have "snd (review_diff ascii_lib twice_oracle lua_chunk []) =
      [user_content (format_existing_issues []) (filter_script_changes lua_chunk)]"
    by blast
  then have "snd (review_diff ascii_lib twice_oracle lua_chunk []) =
       [py ''Review this diff:'' @ [10, 10] @ lua_chunk]"
    by (simp add: user_content_def format_existing_issues_def filter_lua_chunk)
  with bn kept_big big_estimate fl b n s show ?thesis by blast
qed


section \<open>Review and persist\<close>

lemma lua_chunk_nonempty: "lua_chunk \<noteq> []"
  by (simp add: lua_chunk_def unlines_def py_def)

lemma lua_chunk_small: "length lua_chunk div 4 \<le> 150000"
  by (simp add: lua_chunk_def unlines_def py_def)

lemma review_twice:
  "fst (review_diff lib twice_oracle lua_chunk existing) =
     Inr [\<lparr>file = py ''a.lua'', line_start = 0, line_end = 0, severity = py ''Medium'',
           title = py ''T'', explanation = [], suggestion = []\<rparr>,
          \<lparr>file = py ''a.lua'', line_start = 0, line_end = 0, severity = py ''Medium'',
           title = py ''T'', explanation = [], suggestion = []\<rparr>]"
  using lua_chunk_nonempty lua_chunk_small
  by (simp add: review_diff_def filter_lua_chunk Let_def TOKEN_ESTIMATE_DIVISOR_def
      MAX_SINGLE_PASS_TOKENS_def twice_oracle_def parse_twice)


lemmas store_eval =
  review_and_post_def reviewed_def final_dedup_def post_issues_def add_issue_def
  sqlite_int_ok_def update_issue_message_id_def open_keys_def example_db_def
  example_game_def open_channel_def Let_def

text \<open>
  C2, where the code fails it. The findings of one answer are all checked with
  \<open>final_dedup\<close> before any of them is stored, so an answer that holds the same finding
  twice leaves two unresolved rows with the same workspace, file and title in a store
  that had none.
\<close>

theorem duplicate_findings_in_one_batch:
  "open_keys example_db = []
   \<and> fst (review_and_post lib twice_oracle open_channel now example_db 1 lua_chunk) = None
   \<and> open_keys (snd (review_and_post lib twice_oracle open_channel now example_db 1 lua_chunk)) =
       [(1, py ''a.lua'', py ''T''), (1, py ''a.lua'', py ''T'')]"
  by (simp add: store_eval review_twice)





























section \<open>The credential codec\<close>






















text \<open>The digest of \<^verbatim>\<open>abc\<close>, as in the examples of FIPS 180.\<close>

lemma sha256_abc:
  "sha256 (py ''abc'') =
     [186, 120, 22, 191, 143, 1, 207, 234, 65, 65, 64, 222, 93, 174, 34, 35,
      176, 3, 97, 163, 150, 23, 122, 156, 180, 16, 255, 97, 242, 0, 21, 173]"
  by code_simp









end
